theory Spec2Isabelle
  imports Complex_Main
begin

section \<open>Python values used by the HTTP client\<close>

text \<open>
  A string is a list of characters with codes below 256, read as code points; a
  Python \<open>float\<close> is represented by the exact value its literal denotes, or by
  one of the three special values. Rounding to binary64 (and overflow to infinity)
  is not modelled: the client only passes these numbers on to \<open>asyncio.sleep\<close> and
  \<open>loop.call_later\<close> and tests them for zero.
\<close>

datatype pyfloat = Finite rat | Infinite bool | NaN

datatype json =
    JNull
  | JBool bool
  | JInt int
  | JFloat pyfloat
  | JStr string
  | JArr "json list"
  | JObj "(string \<times> json) list"

text \<open>Truthiness of a float (\<open>x or y\<close>): only zero is false.\<close>

fun float_truthy :: "pyfloat \<Rightarrow> bool" where
  "float_truthy (Finite q) = (q \<noteq> 0)"
| "float_truthy (Infinite _) = True"
| "float_truthy NaN = True"

fun truthy :: "json \<Rightarrow> bool" where
  "truthy JNull = False"
| "truthy (JBool b) = b"
| "truthy (JInt i) = (i \<noteq> 0)"
| "truthy (JFloat f) = float_truthy f"
| "truthy (JStr s) = (s \<noteq> [])"
| "truthy (JArr xs) = (xs \<noteq> [])"
| "truthy (JObj kvs) = (kvs \<noteq> [])"

subsection \<open>White space around a number; \<open>str.lower\<close> and \<open>str.upper\<close> on ASCII letters\<close>

text \<open>
  The white space that \<open>int\<close> and \<open>float\<close> skip at both ends of a \<open>str\<close>: the
  characters 9 to 13 and 32, and the two white space characters above 127 (133 and
  160), which are first replaced by blanks. The separators 28 to 31, which
  \<open>str.strip\<close> would remove, are not skipped: a string with one of them is rejected.
\<close>

definition is_space :: "char \<Rightarrow> bool" where
  "is_space c = ((of_char c :: nat) \<in> {9, 10, 11, 12, 13, 32, 133, 160})"

definition strip :: "string \<Rightarrow> string" where
  "strip s = rev (dropWhile is_space (rev (dropWhile is_space s)))"

definition ascii_lower :: "char \<Rightarrow> char" where
  "ascii_lower c =
     (let n = (of_char c :: nat) in if 65 \<le> n \<and> n \<le> 90 then char_of (n + 32) else c)"

definition ascii_upper :: "char \<Rightarrow> char" where
  "ascii_upper c =
     (let n = (of_char c :: nat) in if 97 \<le> n \<and> n \<le> 122 then char_of (n - 32) else c)"

definition lower :: "string \<Rightarrow> string" where
  "lower s = map ascii_lower s"

definition upper :: "string \<Rightarrow> string" where
  "upper s = map ascii_upper s"

subsection \<open>\<open>int(str)\<close> and \<open>float(str)\<close>\<close>

datatype py_builtin_error = ValueError | KeyError | TypeError | AttributeError | RuntimeError

definition digit_val :: "char \<Rightarrow> nat option" where
  "digit_val c =
     (let n = (of_char c :: nat) in if 48 \<le> n \<and> n \<le> 57 then Some (n - 48) else None)"

text \<open>
  \<open>digitpart ::= digit (["_"] digit)*\<close>. The result is the value and the number of
  digits read. \<open>digitpart_from v k cs\<close> continues after a digit.
\<close>

fun digitpart_from :: "nat \<Rightarrow> nat \<Rightarrow> string \<Rightarrow> (nat \<times> nat) option" where
  "digitpart_from v k [] = Some (v, k)"
| "digitpart_from v k (c # cs) =
     (if c = CHR ''_'' then
        (case cs of
           [] \<Rightarrow> None
         | d # ds \<Rightarrow>
             (case digit_val d of
                None \<Rightarrow> None
              | Some w \<Rightarrow> digitpart_from (10 * v + w) (Suc k) ds))
      else
        (case digit_val c of
           None \<Rightarrow> None
         | Some w \<Rightarrow> digitpart_from (10 * v + w) (Suc k) cs))"

definition digitpart :: "string \<Rightarrow> (nat \<times> nat) option" where
  "digitpart s =
     (case s of
        [] \<Rightarrow> None
      | c # cs \<Rightarrow> (case digit_val c of None \<Rightarrow> None | Some w \<Rightarrow> digitpart_from w 1 cs))"

text \<open>
  \<open>int(s)\<close> for a string, base 10: surrounding white space, an optional sign, a
  digitpart of at most \<open>sys.get_int_max_str_digits()\<close> digits (4300 unless the
  interpreter is told otherwise; underscores and the sign do not count). \<open>None\<close> is
  \<open>ValueError\<close>.
\<close>

definition max_str_digits :: nat where
  "max_str_digits = 4300"

definition int_digits :: "string \<Rightarrow> nat option" where
  "int_digits s =
     (case digitpart s of
        None \<Rightarrow> None
      | Some (v, k) \<Rightarrow> if k \<le> max_str_digits then Some v else None)"

definition py_int :: "string \<Rightarrow> int option" where
  "py_int s =
     (case strip s of
        [] \<Rightarrow> None
      | c # cs \<Rightarrow>
          if c = CHR ''-'' then map_option (\<lambda>v. - int v) (int_digits cs)
          else if c = CHR ''+'' then map_option int (int_digits cs)
          else map_option int (int_digits (c # cs)))"

text \<open>
  \<open>float(s)\<close> for a string:
  \<open>[sign] (floatnumber | "inf" | "infinity" | "nan")\<close>, the words in any case,
  \<open>floatnumber ::= ([digitpart] "." digitpart | digitpart ["."]) [("e" | "E") [sign] digitpart]\<close>.
\<close>

definition split_at :: "(char \<Rightarrow> bool) \<Rightarrow> string \<Rightarrow> string \<times> string option" where
  "split_at p s =
     (case dropWhile (\<lambda>c. \<not> p c) s of
        [] \<Rightarrow> (s, None)
      | _ # rest \<Rightarrow> (takeWhile (\<lambda>c. \<not> p c) s, Some rest))"

definition mantissa :: "string \<Rightarrow> rat option" where
  "mantissa s =
     (case split_at (\<lambda>c. c = CHR ''.'') s of
        (ip, None) \<Rightarrow> map_option (\<lambda>(v, k). of_nat v) (digitpart ip)
      | (ip, Some fp) \<Rightarrow>
          if fp = [] then map_option (\<lambda>(v, k). of_nat v) (digitpart ip)
          else
            (case digitpart fp of
               None \<Rightarrow> None
             | Some (fv, fk) \<Rightarrow>
                 if ip = [] then Some (of_nat fv / 10 ^ fk)
                 else map_option (\<lambda>(v, k). of_nat v + of_nat fv / 10 ^ fk) (digitpart ip)))"

definition exponent :: "string \<Rightarrow> int option" where
  "exponent s =
     (case s of
        [] \<Rightarrow> None
      | c # cs \<Rightarrow>
          if c = CHR ''-'' then map_option (\<lambda>(v, k). - int v) (digitpart cs)
          else if c = CHR ''+'' then map_option (\<lambda>(v, k). int v) (digitpart cs)
          else map_option (\<lambda>(v, k). int v) (digitpart (c # cs)))"

definition scale10 :: "rat \<Rightarrow> int \<Rightarrow> rat" where
  "scale10 m e = (if 0 \<le> e then m * 10 ^ nat e else m / 10 ^ nat (- e))"

definition floatnumber :: "string \<Rightarrow> rat option" where
  "floatnumber s =
     (case split_at (\<lambda>c. c = CHR ''e'' \<or> c = CHR ''E'') s of
        (m, None) \<Rightarrow> mantissa m
      | (m, Some e) \<Rightarrow>
          (case mantissa m of
             None \<Rightarrow> None
           | Some q \<Rightarrow> map_option (scale10 q) (exponent e)))"

definition absfloatvalue :: "bool \<Rightarrow> string \<Rightarrow> pyfloat option" where
  "absfloatvalue neg s =
     (if lower s = ''inf'' \<or> lower s = ''infinity'' then Some (Infinite neg)
      else if lower s = ''nan'' then Some NaN
      else map_option (\<lambda>q. Finite (if neg then - q else q)) (floatnumber s))"

definition py_float :: "string \<Rightarrow> pyfloat option" where
  "py_float s =
     (case strip s of
        [] \<Rightarrow> None
      | c # cs \<Rightarrow>
          if c = CHR ''-'' then absfloatvalue True cs
          else if c = CHR ''+'' then absfloatvalue False cs
          else absfloatvalue False (c # cs))"

section \<open>\<open>BucketLock\<close>\<close>

text \<open>
  A response header map (\<open>CIMultiDictProxy\<close>): an ordered list of name/value pairs,
  looked up without regard to the case of the name; \<open>get\<close> yields the first match.
\<close>

type_synonym header = "(string \<times> string) list"

fun header_get :: "header \<Rightarrow> string \<Rightarrow> string option" where
  "header_get [] k = None"
| "header_get ((k', v) # h) k = (if lower k' = lower k then Some v else header_get h k)"

text \<open>The fields of \<open>BucketLock\<close>; \<open>locked\<close> is the state of its \<open>asyncio.Lock\<close>.\<close>

record bucket_lock =
  locked :: bool
  unlock_on_exit :: bool
  bucket_hash :: "string option"
  limit :: int
  remaining :: int
  delta :: pyfloat

text \<open>\<open>BucketLock.__init__\<close>\<close>

definition new_bucket_lock :: bucket_lock where
  "new_bucket_lock =
     \<lparr>locked = False, unlock_on_exit = True, bucket_hash = None,
      limit = - 1, remaining = - 1, delta = Finite 0\<rparr>"

text \<open>\<open>int(header.get(name) or -1)\<close>: an absent or empty value gives \<open>-1\<close>.\<close>

definition int_or_minus_one :: "string option \<Rightarrow> py_builtin_error + int" where
  "int_or_minus_one v =
     (case v of
        None \<Rightarrow> Inr (- 1)
      | Some s \<Rightarrow>
          if s = [] then Inr (- 1)
          else (case py_int s of None \<Rightarrow> Inl ValueError | Some i \<Rightarrow> Inr i))"

text \<open>\<open>float(header.get(name, 0.0))\<close>: only an absent value gives \<open>0.0\<close>.\<close>

definition float_or_zero :: "string option \<Rightarrow> py_builtin_error + pyfloat" where
  "float_or_zero v =
     (case v of
        None \<Rightarrow> Inr (Finite 0)
      | Some s \<Rightarrow> (case py_float s of None \<Rightarrow> Inl ValueError | Some f \<Rightarrow> Inr f))"

text \<open>
  \<open>BucketLock.ingest_ratelimit_header\<close>: four assignments in order. An exception
  leaves the assignments made before it in place, so the result is the exception
  (if any) together with the lock as it then is.
\<close>

definition ingest_ratelimit_header ::
  "header \<Rightarrow> bucket_lock \<Rightarrow> py_builtin_error option \<times> bucket_lock" where
  "ingest_ratelimit_header h b =
     (let b1 = b\<lparr>bucket_hash := header_get h ''x-ratelimit-bucket''\<rparr> in
      case int_or_minus_one (header_get h ''x-ratelimit-limit'') of
        Inl e \<Rightarrow> (Some e, b1)
      | Inr l \<Rightarrow>
          (let b2 = b1\<lparr>limit := l\<rparr> in
           case int_or_minus_one (header_get h ''x-ratelimit-remaining'') of
             Inl e \<Rightarrow> (Some e, b2)
           | Inr r \<Rightarrow>
               (let b3 = b2\<lparr>remaining := r\<rparr> in
                case float_or_zero (header_get h ''x-ratelimit-reset-after'') of
                  Inl e \<Rightarrow> (Some e, b3)
                | Inr d \<Rightarrow> (None, b3\<lparr>delta := d\<rparr>))))"

section \<open>The request dispatcher (\<open>HTTPClient\<close>)\<close>

subsection \<open>Data\<close>

text \<open>
  The attributes of a \<open>Route\<close> that the client reads. The class itself lives in
  \<open>route.py\<close>; the client only uses these four values.
\<close>

record route =
  route_method :: string
  route_url :: string
  endpoint :: string
  rl_bucket :: string

text \<open>A response: its status, its headers and the body as \<open>response_decode\<close> returns it.\<close>

record response =
  status :: int
  headers :: header
  result :: json

datatype error =
    Builtin py_builtin_error
  | OSError "int option"
  | Forbidden response json route
  | NotFound response json route
  | DiscordError response json route
  | HTTPException response json route
  | LoginError
  | OtherException string

text \<open>
  \<open>payload: dict | list[dict] | None\<close> and \<open>files\<close>. An uploadable is a
  \<open>models.File\<close> (with its optional \<open>file_name\<close>), some other file object or path
  (\<open>IOBase\<close>, \<open>BinaryIO\<close>, \<open>Path\<close>), or a path given as \<open>str\<close>; the string
  names the file.
\<close>

datatype payload = Dict "(string \<times> json) list" | List "json list"

datatype uploadable = File "string option" string | Handle string | PathStr string

datatype files_arg = NoFiles | OneFile uploadable | FileList "uploadable list"

text \<open>Truthiness of \<open>files\<close> (\<open>not files\<close>): \<open>None\<close>, \<open>[]\<close> and \<open>""\<close> are false.\<close>

fun files_truthy :: "files_arg \<Rightarrow> bool" where
  "files_truthy NoFiles = False"
| "files_truthy (FileList fs) = (fs \<noteq> [])"
| "files_truthy (OneFile (PathStr s)) = (s \<noteq> [])"
| "files_truthy (OneFile (File n h)) = True"
| "files_truthy (OneFile (Handle h)) = True"

text \<open>
  \<open>aiohttp.FormData\<close> as the list of fields added: name, value, \<open>filename\<close>.
  \<open>OpenFile f\<close> is the buffer that \<open>models.open_file(f)\<close> returns; failures of the
  file system in it are outside the model.
\<close>

datatype field_value = Text string | OpenFile uploadable

type_synonym form_data = "(string \<times> field_value \<times> string option) list"

datatype processed = ProcNone | ProcJson payload | ProcForm form_data

text \<open>
  Functions of the repository that the client imports from modules not at hand
  (\<open>dict_filter\<close>, \<open>OverriddenJson.dumps\<close>): parameters of the model.
\<close>

record collaborators =
  dict_filter :: "(string \<times> json) list \<Rightarrow> (string \<times> json) list"
  json_dumps :: "payload \<Rightarrow> string"

subsection \<open>\<open>_process_payload\<close>\<close>

definition digit_char :: "nat \<Rightarrow> char" where
  "digit_char d = ''0123456789'' ! d"

fun decimal :: "nat \<Rightarrow> string" where
  "decimal n = (if n < 10 then [digit_char n] else decimal (n div 10) @ [digit_char (n mod 10)])"

declare decimal.simps [simp del]

text \<open>The loop \<open>for index, file in enumerate(files)\<close>, from index \<open>i\<close> on.\<close>

fun add_files :: "nat \<Rightarrow> uploadable list \<Rightarrow> form_data \<Rightarrow> form_data" where
  "add_files i [] form = form"
| "add_files i (f # fs) form =
     (let file_buffer = OpenFile f;
          name = ''files['' @ decimal i @ '']''
      in add_files (Suc i) fs
           (form @ [(name, file_buffer, (case f of File n h \<Rightarrow> n | _ \<Rightarrow> None))]))"

definition filter_payload :: "collaborators \<Rightarrow> payload \<Rightarrow> payload" where
  "filter_payload d p =
     (case p of
        Dict kvs \<Rightarrow> Dict (dict_filter d kvs)
      | List xs \<Rightarrow> List (map (\<lambda>x. case x of JObj kvs \<Rightarrow> JObj (dict_filter d kvs) | _ \<Rightarrow> x) xs))"

definition process_payload :: "collaborators \<Rightarrow> payload option \<Rightarrow> files_arg \<Rightarrow> processed" where
  "process_payload d p files =
     (case p of
        None \<Rightarrow> ProcNone
      | Some p0 \<Rightarrow>
          (let p1 = filter_payload d p0 in
           if \<not> files_truthy files then ProcJson p1
           else
             (let fs = (case files of FileList l \<Rightarrow> l | OneFile f \<Rightarrow> [f] | NoFiles \<Rightarrow> []);
                  form_data = [(''payload_json'', Text (json_dumps d p1), None)]
              in ProcForm (add_files 0 fs form_data))))"

subsection \<open>The client and its bucket registry\<close>

text \<open>
  \<open>BucketLock\<close> objects live in a store indexed by address; a fresh object takes the
  next free address. \<open>ratelimit_locks\<close> is the \<open>WeakValueDictionary\<close> from bucket
  hash to lock, \<open>endpoints\<close> the dictionary from \<open>route.rl_bucket\<close> to bucket hash.
\<close>

record http_client =
  token :: "string option"
  user_agent :: string
  max_attempts :: nat
  endpoints :: "string \<rightharpoonup> string"
  ratelimit_locks :: "string \<rightharpoonup> nat"
  lock_store :: "nat \<Rightarrow> bucket_lock"
  next_addr :: nat

text \<open>\<open>HTTPClient.__init__\<close> for a given user agent string.\<close>

definition new_http_client :: "string \<Rightarrow> http_client" where
  "new_http_client ua =
     \<lparr>token = None, user_agent = ua, max_attempts = 3, endpoints = Map.empty,
      ratelimit_locks = Map.empty, lock_store = (\<lambda>_. new_bucket_lock), next_addr = 0\<rparr>"

definition alloc_bucket_lock :: "http_client \<Rightarrow> nat \<times> http_client" where
  "alloc_bucket_lock c =
     (next_addr c,
      c\<lparr>lock_store := (lock_store c)(next_addr c := new_bucket_lock),
        next_addr := Suc (next_addr c)\<rparr>)"

text \<open>\<open>get_ratelimit\<close>: the cached lock of the route's known bucket hash, else a new lock.\<close>

definition get_ratelimit :: "route \<Rightarrow> http_client \<Rightarrow> nat \<times> http_client" where
  "get_ratelimit r c =
     (case endpoints c (rl_bucket r) of
        None \<Rightarrow> alloc_bucket_lock c
      | Some h \<Rightarrow>
          if h = [] then alloc_bucket_lock c
          else (case ratelimit_locks c h of
                  None \<Rightarrow> alloc_bucket_lock c
                | Some a \<Rightarrow> (a, c)))"

definition update_lock :: "nat \<Rightarrow> (bucket_lock \<Rightarrow> bucket_lock) \<Rightarrow> http_client \<Rightarrow> http_client" where
  "update_lock a f c = c\<lparr>lock_store := (lock_store c)(a := f (lock_store c a))\<rparr>"

text \<open>\<open>ingest_ratelimit\<close>: ingest into the lock, then cache it if it now has a bucket hash.\<close>

definition ingest_ratelimit ::
  "route \<Rightarrow> header \<Rightarrow> nat \<Rightarrow> http_client \<Rightarrow> py_builtin_error option \<times> http_client" where
  "ingest_ratelimit r h a c =
     (case ingest_ratelimit_header h (lock_store c a) of
        (Some e, b) \<Rightarrow> (Some e, update_lock a (\<lambda>_. b) c)
      | (None, b) \<Rightarrow>
          (let c1 = update_lock a (\<lambda>_. b) c in
           case bucket_hash b of
             None \<Rightarrow> (None, c1)
           | Some bh \<Rightarrow>
               if bh = [] then (None, c1)
               else (None, c1\<lparr>endpoints := (endpoints c1)(rl_bucket r \<mapsto> bh),
                              ratelimit_locks := (ratelimit_locks c1)(bh \<mapsto> a)\<rparr>)))"

subsection \<open>What one call of \<open>request\<close> does, as a trace\<close>

record http_request =
  req_method :: string
  req_url :: string
  req_headers :: "(string \<times> string) list"
  req_params :: "(string \<times> json) list option"
  req_body :: processed

text \<open>
  The effects of a call, in order. \<open>Acquire\<close>/\<open>Release\<close> are on the bucket lock at
  the given address, \<open>GlobalAcquire\<close>/\<open>GlobalRelease\<close> on the lock of \<open>GlobalLock\<close>;
  \<open>RateLimit\<close> is one call of \<open>GlobalLock.rate_limit\<close>; \<open>Send\<close> is the transfer
  \<open>session.request(method, url, **kwargs)\<close>; \<open>CallLater d a\<close> is
  \<open>loop.call_later(d, lock.unlock)\<close> for the lock at \<open>a\<close>.
\<close>

datatype event =
    Acquire nat
  | Release nat
  | RateLimit
  | Login
  | Send http_request
  | GlobalAcquire
  | GlobalRelease
  | Sleep pyfloat
  | CallLater pyfloat nat

text \<open>How an iteration of the attempt loop ends.\<close>

datatype flow = Continue | Return json | Raise error

text \<open>
  What the environment does in one iteration: whether the session was closed and, if
  so, whether \<open>login\<close> raised; and how the transfer (with \<open>response_decode\<close>) ended.
\<close>

datatype outcome = Responded response | Failed error

record attempt_env =
  session_closed :: bool
  login_raises :: "error option"
  transfer :: outcome

subsection \<open>The methods of \<open>BucketLock\<close> that take part\<close>

text \<open>\<open>unlock\<close>: \<open>asyncio.Lock.release\<close> raises \<open>RuntimeError\<close> on a lock that is not held.\<close>

definition unlock ::
  "nat \<Rightarrow> http_client \<Rightarrow> py_builtin_error option \<times> http_client \<times> event list" where
  "unlock a c =
     (if locked (lock_store c a)
      then (None, update_lock a (\<lambda>b. b\<lparr>locked := False\<rparr>) c, [Release a])
      else (Some RuntimeError, c, []))"

text \<open>The assignment \<open>self.unlock_on_exit = False\<close> on the lock at \<open>a\<close>.\<close>

definition keep_locked_on_exit :: "nat \<Rightarrow> http_client \<Rightarrow> http_client" where
  "keep_locked_on_exit a c = update_lock a (\<lambda>b. b\<lparr>unlock_on_exit := False\<rparr>) c"

definition blind_defer_unlock :: "nat \<Rightarrow> http_client \<Rightarrow> http_client \<times> event list" where
  "blind_defer_unlock a c =
     (let c1 = keep_locked_on_exit a c
      in (c1, [CallLater (delta (lock_store c1 a)) a]))"

text \<open>\<open>defer_unlock(reset_after)\<close>: sleeps \<open>reset_after or self.delta\<close>, then unlocks.\<close>

definition defer_delay :: "pyfloat option \<Rightarrow> bucket_lock \<Rightarrow> pyfloat" where
  "defer_delay reset_after b =
     (case reset_after of
        None \<Rightarrow> delta b
      | Some x \<Rightarrow> if float_truthy x then x else delta b)"

definition defer_unlock ::
  "nat \<Rightarrow> pyfloat option \<Rightarrow> http_client \<Rightarrow>
     py_builtin_error option \<times> http_client \<times> event list" where
  "defer_unlock a reset_after c =
     (let c1 = keep_locked_on_exit a c;
          d = defer_delay reset_after (lock_store c1 a)
      in case unlock a c1 of (e, c2, evs) \<Rightarrow> (e, c2, Sleep d # evs))"

text \<open>\<open>__aenter__\<close> once the lock has been obtained, and \<open>__aexit__\<close>.\<close>

definition aenter :: "nat \<Rightarrow> http_client \<Rightarrow> http_client \<times> event list" where
  "aenter a c = (update_lock a (\<lambda>b. b\<lparr>locked := True\<rparr>) c, [Acquire a])"

definition aexit :: "nat \<Rightarrow> http_client \<Rightarrow> http_client \<times> event list" where
  "aexit a c =
     (let b = lock_store c a in
      if unlock_on_exit b \<and> locked b
      then (update_lock a (\<lambda>b. b\<lparr>locked := False, unlock_on_exit := True\<rparr>) c, [Release a])
      else (update_lock a (\<lambda>b. b\<lparr>unlock_on_exit := True\<rparr>) c, []))"

subsection \<open>Interpreting a response\<close>

text \<open>A decoded JSON object as a \<open>dict\<close>: of two equal keys the later one counts.\<close>

definition dict_get :: "(string \<times> json) list \<Rightarrow> string \<Rightarrow> json option" where
  "dict_get kvs k = map_of (rev kvs) k"

text \<open>\<open>float(x)\<close> for a decoded JSON value.\<close>

fun float_of_json :: "json \<Rightarrow> py_builtin_error + pyfloat" where
  "float_of_json (JInt i) = Inr (Finite (of_int i))"
| "float_of_json (JFloat f) = Inr f"
| "float_of_json (JBool b) = Inr (Finite (if b then 1 else 0))"
| "float_of_json (JStr s) = (case py_float s of None \<Rightarrow> Inl ValueError | Some f \<Rightarrow> Inr f)"
| "float_of_json JNull = Inl TypeError"
| "float_of_json (JArr xs) = Inl TypeError"
| "float_of_json (JObj kvs) = Inl TypeError"

text \<open>\<open>float(result["retry_after"])\<close>\<close>

definition retry_after :: "(string \<times> json) list \<Rightarrow> py_builtin_error + pyfloat" where
  "retry_after kvs =
     (case dict_get kvs ''retry_after'' of None \<Rightarrow> Inl KeyError | Some v \<Rightarrow> float_of_json v)"

text \<open>\<open>_raise_exception\<close>: the exception raised for a response.\<close>

definition raise_exception :: "response \<Rightarrow> route \<Rightarrow> json \<Rightarrow> error" where
  "raise_exception resp r res =
     (if status resp = 403 then Forbidden resp res r
      else if status resp = 404 then NotFound resp res r
      else if status resp \<ge> 500 then DiscordError resp res r
      else HTTPException resp res r)"

text \<open>\<open>GlobalLock.lock(delta)\<close>\<close>

definition global_lock_lock :: "pyfloat \<Rightarrow> event list" where
  "global_lock_lock d = [GlobalAcquire, Sleep d, GlobalRelease]"

text \<open>The delay \<open>1 + attempt * 2\<close> of a retry.\<close>

definition retry_delay :: "nat \<Rightarrow> pyfloat" where
  "retry_delay attempt = Finite (of_nat (1 + attempt * 2))"

text \<open>Lines 337 to 343: raise for a status outside 200 to 299, else return the result.\<close>

definition raise_or_return ::
  "route \<Rightarrow> response \<Rightarrow> http_client \<Rightarrow> event list \<Rightarrow> flow \<times> http_client \<times> event list" where
  "raise_or_return r resp c evs =
     (if \<not> (300 > status resp \<and> status resp \<ge> 200)
      then (Raise (raise_exception resp r (result resp)), c, evs)
      else (Return (result resp), c, evs))"

text \<open>
  The \<open>if\<close>/\<open>elif\<close> chain of lines 293 to 335, read after the headers have been
  ingested into the lock \<open>b\<close>: which branch is taken. The first condition that holds
  decides; the branches for 429, for \<open>remaining == 0\<close> and for 500, 502, 504 are
  alternatives of one chain.
\<close>

datatype action =
    GlobalRetry pyfloat
  | DeferRetry "pyfloat option"
  | BlindDefer
  | ServerRetry
  | Finish
  | Fail error

definition choose_branch :: "response \<Rightarrow> bucket_lock \<Rightarrow> action" where
  "choose_branch resp b =
     (if status resp = 429 then
        (case result resp of
           JObj kvs \<Rightarrow>
             if truthy (case dict_get kvs ''global'' of None \<Rightarrow> JBool False | Some v \<Rightarrow> v) then
               (case retry_after kvs of
                  Inl e \<Rightarrow> Fail (Builtin e)
                | Inr d \<Rightarrow> GlobalRetry d)
             else if dict_get kvs ''message'' = Some (JStr ''The resource is being rate limited.'') then
               (case retry_after kvs of
                  Inl e \<Rightarrow> Fail (Builtin e)
                | Inr d \<Rightarrow> DeferRetry (Some d))
             else DeferRetry None
         | _ \<Rightarrow> Fail (Builtin AttributeError))
      else if remaining b = 0 then BlindDefer
      else if status resp \<in> {500, 502, 504} then ServerRetry
      else Finish)"

text \<open>
  The body of \<open>async with session.request(...) as response\<close> after \<open>response_decode\<close>,
  for the lock at address \<open>a\<close> in iteration \<open>attempt\<close>: lines 291 to 343.
\<close>

definition handle_response ::
  "route \<Rightarrow> nat \<Rightarrow> nat \<Rightarrow> response \<Rightarrow> http_client \<Rightarrow> flow \<times> http_client \<times> event list" where
  "handle_response r a attempt resp c =
     (case ingest_ratelimit r (headers resp) a c of
        (Some e, c1) \<Rightarrow> (Raise (Builtin e), c1, [])
      | (None, c1) \<Rightarrow>
          (case choose_branch resp (lock_store c1 a) of
             GlobalRetry d \<Rightarrow> (Continue, c1, global_lock_lock d)
           | DeferRetry x \<Rightarrow>
               (case defer_unlock a x c1 of
                  (Some e, c2, evs) \<Rightarrow> (Raise (Builtin e), c2, evs)
                | (None, c2, evs) \<Rightarrow> (Continue, c2, evs))
           | BlindDefer \<Rightarrow>
               (case blind_defer_unlock a c1 of (c2, evs) \<Rightarrow> raise_or_return r resp c2 evs)
           | ServerRetry \<Rightarrow> (Continue, c1, [Sleep (retry_delay attempt)])
           | Finish \<Rightarrow> raise_or_return r resp c1 []
           | Fail e \<Rightarrow> (Raise e, c1, [])))"

subsection \<open>One iteration of the attempt loop\<close>

text \<open>What \<open>request\<close> fixes before the loop: the route, the arguments, the lock.\<close>

record call =
  call_route :: route
  call_payload :: "payload option"
  call_files :: files_arg
  call_headers :: "(string \<times> string) list"
  call_params :: "(string \<times> json) list option"
  call_lock :: nat

text \<open>
  Lines 281 to 288: the arguments of \<open>session.request\<close>; the body is \<open>data\<close> for form
  data and \<open>json\<close> otherwise.
\<close>

definition make_request :: "collaborators \<Rightarrow> call \<Rightarrow> http_request" where
  "make_request d cl =
     \<lparr>req_method = route_method (call_route cl), req_url = route_url (call_route cl),
      req_headers = call_headers cl, req_params = call_params cl,
      req_body = process_payload d (call_payload cl) (call_files cl)\<rparr>"

text \<open>
  The \<open>try\<close> block, lines 275 to 343. \<open>login\<close> on a closed session is a further
  request of its own; here it is the event \<open>Login\<close> and the exception it may raise.
\<close>

definition try_body ::
  "collaborators \<Rightarrow> call \<Rightarrow> nat \<Rightarrow> attempt_env \<Rightarrow> http_client \<Rightarrow>
     flow \<times> http_client \<times> event list" where
  "try_body d cl attempt env c =
     (let evs0 = (if session_closed env then [RateLimit, Login] else [RateLimit]) in
      case (if session_closed env then login_raises env else None) of
        Some e \<Rightarrow> (Raise e, c, evs0)
      | None \<Rightarrow>
          (let req = make_request d cl
           in case transfer env of
                Failed e \<Rightarrow> (Raise e, c, evs0 @ [Send req])
              | Responded resp \<Rightarrow>
                  (case handle_response (call_route cl) (call_lock cl) attempt resp c of
                     (fl, c1, evs) \<Rightarrow> (fl, c1, evs0 @ [Send req] @ evs))))"

text \<open>The handler \<open>except OSError as e\<close>, lines 344 to 348.\<close>

definition except_oserror :: "http_client \<Rightarrow> nat \<Rightarrow> flow \<Rightarrow> flow \<times> event list" where
  "except_oserror c attempt fl =
     (case fl of
        Raise (OSError errno) \<Rightarrow>
          if int attempt < int (max_attempts c) - 1 \<and> errno \<in> {Some 54, Some 10054}
          then (Continue, [Sleep (retry_delay attempt)])
          else (fl, [])
      | _ \<Rightarrow> (fl, []))"

text \<open>The body of the \<open>for\<close> loop: \<open>async with lock\<close> around the \<open>try\<close> statement.\<close>

definition attempt_iter ::
  "collaborators \<Rightarrow> call \<Rightarrow> nat \<Rightarrow> attempt_env \<Rightarrow> http_client \<Rightarrow>
     flow \<times> http_client \<times> event list" where
  "attempt_iter d cl attempt env c =
     (case aenter (call_lock cl) c of
        (c1, evs1) \<Rightarrow>
          (case try_body d cl attempt env c1 of
             (fl, c2, evs2) \<Rightarrow>
               (case except_oserror c2 attempt fl of
                  (fl', evs3) \<Rightarrow>
                    (case aexit (call_lock cl) c2 of
                       (c3, evs4) \<Rightarrow> (fl', c3, evs1 @ evs2 @ evs3 @ evs4)))))"

subsection \<open>The loop and \<open>request\<close>\<close>

text \<open>
  \<open>for attempt in range(self._max_attempts)\<close> over the attempts still to be made.
  The environment is a sequence of transfers, \<open>k\<close> the number of transfers made so
  far. Leaving the loop at its end, the function returns \<open>None\<close>.
\<close>

fun attempts_loop ::
  "collaborators \<Rightarrow> call \<Rightarrow> nat list \<Rightarrow> nat \<Rightarrow> (nat \<Rightarrow> attempt_env) \<Rightarrow>
     http_client \<times> event list \<Rightarrow> (error + json) \<times> http_client \<times> event list" where
  "attempts_loop d cl [] k env (c, tr) = (Inr JNull, c, tr)"
| "attempts_loop d cl (attempt # rest) k env (c, tr) =
     (case attempt_iter d cl attempt (env k) c of
        (Continue, c1, evs) \<Rightarrow> attempts_loop d cl rest (Suc k) env (c1, tr @ evs)
      | (Return v, c1, evs) \<Rightarrow> (Inr v, c1, tr @ evs)
      | (Raise e, c1, evs) \<Rightarrow> (Inl e, c1, tr @ evs))"

text \<open>\<open>urllib.parse.quote(reason, safe="/ ")\<close> on a byte string.\<close>

definition quote_safe :: "char \<Rightarrow> bool" where
  "quote_safe c =
     (let n = (of_char c :: nat) in
      (48 \<le> n \<and> n \<le> 57) \<or> (65 \<le> n \<and> n \<le> 90) \<or> (97 \<le> n \<and> n \<le> 122)
      \<or> c \<in> set ''_.-~/ '')"

definition hex_digit :: "nat \<Rightarrow> char" where
  "hex_digit n = ''0123456789ABCDEF'' ! n"

definition uriquote :: "string \<Rightarrow> string" where
  "uriquote s =
     concat (map (\<lambda>c. if quote_safe c then [c]
                       else [CHR ''%'', hex_digit ((of_char c :: nat) div 16),
                             hex_digit ((of_char c :: nat) mod 16)]) s)"

text \<open>Lines 256 to 263: the headers of the request.\<close>

definition assemble_headers ::
  "http_client \<Rightarrow> payload option \<Rightarrow> files_arg \<Rightarrow> string option \<Rightarrow> (string \<times> string) list" where
  "assemble_headers c p files reason =
     [(''User-Agent'', user_agent c)]
     @ (case token c of
          None \<Rightarrow> []
        | Some t \<Rightarrow> if t = [] then [] else [(''Authorization'', ''Bot '' @ t)])
     @ (case reason of
          None \<Rightarrow> []
        | Some rs \<Rightarrow> if rs = [] then [] else [(''X-Audit-Log-Reason'', uriquote rs)])
     @ (if p \<noteq> None \<and> \<not> files_truthy files then [(''Content-Type'', ''application/json'')] else [])"

text \<open>
  \<open>HTTPClient.request\<close>. The result is what the call returns or raises, the client
  afterwards, and the trace of its effects. Further keyword arguments of the caller
  are not modelled.
\<close>

definition request ::
  "collaborators \<Rightarrow> http_client \<Rightarrow> route \<Rightarrow> payload option \<Rightarrow> files_arg \<Rightarrow>
     string option \<Rightarrow> (string \<times> json) list option \<Rightarrow> (nat \<Rightarrow> attempt_env) \<Rightarrow>
     (error + json) \<times> http_client \<times> event list" where
  "request d c r p files reason params env =
     (case get_ratelimit r c of
        (a, c1) \<Rightarrow>
          attempts_loop d
            \<lparr>call_route = r, call_payload = p, call_files = files,
             call_headers = assemble_headers c p files reason,
             call_params = map_option (dict_filter d) params,
             call_lock = a\<rparr>
            [0 ..< max_attempts c1] 0 env (c1, []))"

section \<open>\<open>ConnectionState\<close>\<close>

subsection \<open>\<open>_ws_connect\<close>\<close>

text \<open>
  What \<open>GatewayClient\<close> (a module not at hand) does inside
  \<open>async with GatewayClient(...) as self.gateway\<close>: entering the context raises, or
  \<open>run\<close> returns, or \<open>run\<close> raises. An exception is a \<open>WebSocketClosed\<close> with its
  close code, some other \<open>Exception\<close>, or a \<open>BaseException\<close> that is no \<open>Exception\<close>
  (a cancellation). Leaving the context is taken not to swallow the exception.
\<close>

datatype gateway_exception = WebSocketClosed int | OtherError string | Cancelled

datatype gateway_outcome = EnterRaised gateway_exception | RunReturned | RunRaised gateway_exception

datatype lifecycle_event = Disconnect | ShardDisconnect int

text \<open>
  The effects of \<open>_ws_connect\<close>. \<open>OpenGateway\<close> is the one place where a connection
  is attempted: a \<open>GatewayClient\<close> is made and its context entered.
\<close>

datatype ws_event =
    LogInfo
  | OpenGateway
  | RunGateway
  | Dispatch lifecycle_event
  | LogError

datatype ws_error = NaffException string | Propagated gateway_exception

record connection_state =
  shard_id :: int
  total_shards :: int
  intents :: int
  shard_ready :: bool

text \<open>The \<open>finally\<close> block, lines 106 to 111.\<close>

definition ws_finally :: "connection_state \<Rightarrow> connection_state \<times> ws_event list" where
  "ws_finally st =
     (st\<lparr>shard_ready := False\<rparr>,
      [if total_shards st = 1 then Dispatch Disconnect
       else Dispatch (ShardDisconnect (shard_id st))])"

text \<open>
  The handlers of lines 113 to 126 for an exception that left the \<open>async with\<close>
  block. \<open>show_intents\<close> is \<open>str\<close> on the \<open>Intents\<close> flag.
\<close>

definition ws_handlers ::
  "(int \<Rightarrow> string) \<Rightarrow> connection_state \<Rightarrow> gateway_exception \<Rightarrow> ws_error option \<times> ws_event list" where
  "ws_handlers show_intents st ex =
     (case ex of
        WebSocketClosed code \<Rightarrow>
          if code = 4011 then
            (Some (NaffException ''Your bot is too large, you must use shards''), [])
          else if code = 4013 then
            (Some (NaffException (''Invalid Intents have been passed: '' @ show_intents (intents st))), [])
          else if code = 4014 then
            (Some (NaffException
               ''You have requested privileged intents that have not been enabled or approved. Check the developer dashboard''), [])
          else (Some (Propagated ex), [])
      | OtherError m \<Rightarrow> (None, [Dispatch Disconnect, LogError])
      | Cancelled \<Rightarrow> (Some (Propagated ex), []))"

text \<open>\<open>ConnectionState._ws_connect\<close>: what it raises, the state afterwards, its effects.\<close>

definition ws_connect ::
  "(int \<Rightarrow> string) \<Rightarrow> gateway_outcome \<Rightarrow> connection_state \<Rightarrow>
     ws_error option \<times> connection_state \<times> ws_event list" where
  "ws_connect show_intents out st =
     (case out of
        EnterRaised ex \<Rightarrow>
          (case ws_handlers show_intents st ex of
             (r, evs) \<Rightarrow> (r, st, [LogInfo, OpenGateway] @ evs))
      | RunReturned \<Rightarrow>
          (case ws_finally st of
             (st1, evs1) \<Rightarrow> (None, st1, [LogInfo, OpenGateway, RunGateway] @ evs1))
      | RunRaised ex \<Rightarrow>
          (case ws_finally st of
             (st1, evs1) \<Rightarrow>
               (case ws_handlers show_intents st1 ex of
                  (r, evs2) \<Rightarrow> (r, st1, [LogInfo, OpenGateway, RunGateway] @ evs1 @ evs2))))"

subsection \<open>\<open>change_presence\<close>\<close>

text \<open>
  \<open>ActivityType\<close>: the five members the method names, and any other member.
  An \<open>Activity\<close> with the attributes the method reads.
\<close>

datatype activity_type = GAME | STREAMING | LISTENING | WATCHING | COMPETING | OtherType int

record activity =
  activity_name :: string
  activity_type :: activity_type
  activity_url :: "string option"

text \<open>
  The arguments. \<open>status\<close> is \<open>None\<close>, a \<open>str\<close> or a \<open>Status\<close> member (\<open>'s\<close> is the
  enum); \<open>activity\<close> is \<open>MISSING\<close>, \<open>None\<close>, an \<open>Activity\<close> or something else, given
  by its \<open>str\<close>.
\<close>

datatype 's status_arg = StatusNone | StatusStr string | StatusMember 's

datatype activity_arg = ActivityMissing | ActivityNone | ActivityObject activity | ActivityOther string

text \<open>
  Declarations of modules not at hand, as parameters: \<open>Status[name]\<close> (lookup of a
  member by name, \<open>None\<close> for \<open>KeyError\<close>), \<open>Status.ONLINE\<close>, \<open>Activity.create(name=...)\<close>.
  Every member of \<open>Status\<close> is taken to be truthy.
\<close>

record 's presence_enums =
  status_by_name :: "string \<rightharpoonup> 's"
  status_online :: 's
  activity_create :: "string \<Rightarrow> activity"

record 's client_presence =
  client_status :: "'s option"
  client_activity :: "activity option"

datatype warning = StreamingWithoutUrl | TypeNotEnabled activity_type | DefaultingToOnline

datatype 's presence_event = Warning warning | GatewayChangePresence "activity option" 's

text \<open>Lines 150 to 160: the warnings logged for an activity.\<close>

definition activity_warnings :: "activity \<Rightarrow> 's presence_event list" where
  "activity_warnings act =
     (if activity_type act = STREAMING then
        (if activity_url act = None \<or> activity_url act = Some [] then [Warning StreamingWithoutUrl]
         else [])
      else if activity_type act \<notin> {GAME, STREAMING, LISTENING, WATCHING, COMPETING}
        then [Warning (TypeNotEnabled (activity_type act))]
      else [])"

text \<open>
  Lines 142 to 162: the activity to set (\<open>None\<close> also stands for the empty list the
  method puts in place of \<open>None\<close>) and the warnings logged.
\<close>

fun check_activity ::
  "'s presence_enums \<Rightarrow> activity_arg \<Rightarrow> 's client_presence \<Rightarrow> activity option \<times> 's presence_event list" where
  "check_activity en ActivityMissing cl = (client_activity cl, [])"
| "check_activity en ActivityNone cl = (None, [])"
| "check_activity en (ActivityObject act) cl = (Some act, activity_warnings act)"
| "check_activity en (ActivityOther s) cl =
     (let act = activity_create en s in (Some act, activity_warnings act))"

text \<open>Lines 170 to 176: the status when the argument is \<open>None\<close> or empty.\<close>

definition fallback_status ::
  "'s presence_enums \<Rightarrow> 's client_presence \<Rightarrow> py_builtin_error + ('s \<times> 's presence_event list)" where
  "fallback_status en cl =
     (case client_status cl of
        Some m \<Rightarrow> Inr (m, [])
      | None \<Rightarrow> Inr (status_online en, [Warning DefaultingToOnline]))"

text \<open>Lines 164 to 176: the status to set, or the \<open>ValueError\<close>.\<close>

fun check_status ::
  "'s presence_enums \<Rightarrow> 's status_arg \<Rightarrow> 's client_presence \<Rightarrow>
     py_builtin_error + ('s \<times> 's presence_event list)" where
  "check_status en (StatusMember m) cl = Inr (m, [])"
| "check_status en (StatusStr s) cl =
     (if s \<noteq> [] then
        (case status_by_name en (upper s) of
           None \<Rightarrow> Inl ValueError
         | Some m \<Rightarrow> Inr (m, []))
      else fallback_status en cl)"
| "check_status en StatusNone cl = fallback_status en cl"

text \<open>\<open>ConnectionState.change_presence\<close>: what it raises, the client afterwards, its effects.\<close>

definition change_presence ::
  "'s presence_enums \<Rightarrow> 's status_arg \<Rightarrow> activity_arg \<Rightarrow> 's client_presence \<Rightarrow>
     py_builtin_error option \<times> 's client_presence \<times> 's presence_event list" where
  "change_presence en st_arg act_arg cl =
     (case check_activity en act_arg cl of
        (act, evs1) \<Rightarrow>
          (case check_status en st_arg cl of
             Inl e \<Rightarrow> (Some e, cl, evs1)
           | Inr (m, evs2) \<Rightarrow>
               (None, cl\<lparr>client_status := Some m, client_activity := act\<rparr>,
                evs1 @ evs2 @ [GatewayChangePresence act m])))"

section \<open>Concurrent calls of \<open>request\<close>\<close>

text \<open>
  Calls of \<open>request\<close> run as tasks of one event loop: a task runs until it waits (for
  a lock, for the transfer, in a sleep), and then another task runs. A task of the
  model is a call of \<open>request\<close> with its route, the lock that \<open>get_ratelimit\<close> gave
  it, the number of the current attempt and the place where it waits. The session
  is taken to be open, and the payload plays no part.
\<close>

datatype phase =
    AwaitBucket
  | Throttle
  | Cooldown rat pyfloat
  | Sending
  | AwaitHard pyfloat
  | HardSleep rat pyfloat
  | DeferSleep rat pyfloat
  | RetrySleep rat pyfloat
  | Finished "error + json"

text \<open>
  \<^item> \<open>AwaitBucket\<close>: in \<open>async with lock\<close>, before the bucket lock is obtained;
  \<^item> \<open>Throttle\<close>: holding the bucket lock, in \<open>global_lock.rate_limit()\<close> before the
    global lock is obtained;
  \<^item> \<open>Cooldown t d\<close>: in \<open>rate_limit\<close>, holding the global lock, asleep since \<open>t\<close> for
    \<open>d\<close> seconds because no token was free;
  \<^item> \<open>Sending\<close>: the transfer \<open>session.request\<close> with \<open>response_decode\<close> is under way;
  \<^item> \<open>AwaitHard d\<close>: after a global 429, in \<open>global_lock.lock(d)\<close> before the global
    lock is obtained; \<open>HardSleep t d\<close>: holding it, asleep since \<open>t\<close> for \<open>d\<close> seconds;
  \<^item> \<open>DeferSleep t d\<close>: in \<open>defer_unlock\<close>; \<open>RetrySleep t d\<close>: in the sleep before a retry;
  \<^item> \<open>Finished r\<close>: the call has returned or raised.
\<close>

record task =
  task_route :: route
  task_lock :: nat
  task_attempt :: nat
  task_phase :: phase

text \<open>
  The state of the process: the client, the lock of \<open>GlobalLock\<close>, the time, the
  tasks, and the timers set by \<open>loop.call_later(delta, lock.unlock)\<close> (when set, the
  delay, the lock).
\<close>

record system =
  client :: http_client
  global_locked :: bool
  clock :: rat
  tasks :: "task list"
  timers :: "(rat \<times> pyfloat \<times> nat) list"

definition initial :: "string \<Rightarrow> system" where
  "initial ua =
     \<lparr>client = new_http_client ua, global_locked = False, clock = 0, tasks = [], timers = []\<rparr>"

text \<open>A sleep or timer of \<open>d\<close> seconds begun at \<open>t\<close> may end at time \<open>now\<close>.\<close>

fun elapsed :: "rat \<Rightarrow> pyfloat \<Rightarrow> rat \<Rightarrow> bool" where
  "elapsed t (Finite q) now = (t + q \<le> now)"
| "elapsed t (Infinite neg) now = neg"
| "elapsed t NaN now = True"

text \<open>\<open>continue\<close>: the next iteration of \<open>for attempt in range(self._max_attempts)\<close>.\<close>

definition next_iteration :: "http_client \<Rightarrow> task \<Rightarrow> task" where
  "next_iteration c t =
     (if Suc (task_attempt t) < max_attempts c
      then t\<lparr>task_attempt := Suc (task_attempt t), task_phase := AwaitBucket\<rparr>
      else t\<lparr>task_phase := Finished (Inr JNull)\<rparr>)"

fun flow_result :: "flow \<Rightarrow> error + json" where
  "flow_result (Return v) = Inr v"
| "flow_result (Raise e) = Inl e"
| "flow_result Continue = Inr JNull"

fun call_laters :: "rat \<Rightarrow> event list \<Rightarrow> (rat \<times> pyfloat \<times> nat) list" where
  "call_laters now [] = []"
| "call_laters now (CallLater d a # evs) = (now, d, a) # call_laters now evs"
| "call_laters now (_ # evs) = call_laters now evs"

text \<open>
  The transfer of task \<open>t\<close> ends with a response: lines 291 to 343 up to the next
  wait. The result is the client, the timers set, and where the task is then.
\<close>

definition on_response ::
  "rat \<Rightarrow> response \<Rightarrow> task \<Rightarrow> http_client \<Rightarrow> http_client \<times> (rat \<times> pyfloat \<times> nat) list \<times> phase" where
  "on_response now resp t c =
     (let a = task_lock t in
      case ingest_ratelimit (task_route t) (headers resp) a c of
        (Some e, c1) \<Rightarrow> (fst (aexit a c1), [], Finished (Inl (Builtin e)))
      | (None, c1) \<Rightarrow>
          (case choose_branch resp (lock_store c1 a) of
             GlobalRetry d \<Rightarrow> (c1, [], AwaitHard d)
           | DeferRetry x \<Rightarrow>
               (let c2 = keep_locked_on_exit a c1
                in (c2, [], DeferSleep now (defer_delay x (lock_store c2 a))))
           | BlindDefer \<Rightarrow>
               (case blind_defer_unlock a c1 of
                  (c2, evs) \<Rightarrow>
                    (case raise_or_return (task_route t) resp c2 evs of
                       (fl, c3, evs') \<Rightarrow>
                         (fst (aexit a c3), call_laters now evs', Finished (flow_result fl))))
           | ServerRetry \<Rightarrow> (c1, [], RetrySleep now (retry_delay (task_attempt t)))
           | Finish \<Rightarrow>
               (case raise_or_return (task_route t) resp c1 [] of
                  (fl, c3, evs') \<Rightarrow> (fst (aexit a c3), [], Finished (flow_result fl)))
           | Fail e \<Rightarrow> (fst (aexit a c1), [], Finished (Inl e))))"

text \<open>The transfer of task \<open>t\<close> ends with an exception: lines 344 to 348.\<close>

definition on_failure ::
  "rat \<Rightarrow> error \<Rightarrow> task \<Rightarrow> http_client \<Rightarrow> http_client \<times> (rat \<times> pyfloat \<times> nat) list \<times> phase" where
  "on_failure now e t c =
     (case fst (except_oserror c (task_attempt t) (Raise e)) of
        Continue \<Rightarrow> (c, [], RetrySleep now (retry_delay (task_attempt t)))
      | fl \<Rightarrow> (fst (aexit (task_lock t) c), [], Finished (flow_result fl)))"

text \<open>
  What a task can do next. \<open>WaitThrottle d\<close> and \<open>CooldownAgain d\<close> are the case that
  \<open>acquire_token\<close> fails and \<open>get_cooldown_time\<close> gives \<open>d\<close>; \<open>Complete out\<close> is the end
  of the transfer with outcome \<open>out\<close>.
\<close>

datatype task_label =
    AcquireBucket
  | PassThrottle
  | WaitThrottle pyfloat
  | CooldownPass
  | CooldownAgain pyfloat
  | Complete outcome
  | AcquireHard
  | ReleaseHard
  | WakeDefer
  | WakeRetry

text \<open>
  One step of a task: the system with its client, global lock and timers as the
  step leaves them, and the task after the step; \<open>None\<close> when the task cannot take
  this step now (it waits elsewhere, the lock is held, the sleep has not ended).
\<close>

fun task_step :: "task_label \<Rightarrow> system \<Rightarrow> task \<Rightarrow> (system \<times> task) option" where
  "task_step AcquireBucket s t =
     (if task_phase t = AwaitBucket \<and> \<not> locked (lock_store (client s) (task_lock t))
      then Some (s\<lparr>client := fst (aenter (task_lock t) (client s))\<rparr>, t\<lparr>task_phase := Throttle\<rparr>)
      else None)"
| "task_step PassThrottle s t =
     (if task_phase t = Throttle \<and> \<not> global_locked s
      then Some (s, t\<lparr>task_phase := Sending\<rparr>)
      else None)"
| "task_step (WaitThrottle d) s t =
     (if task_phase t = Throttle \<and> \<not> global_locked s
      then Some (s\<lparr>global_locked := True\<rparr>, t\<lparr>task_phase := Cooldown (clock s) d\<rparr>)
      else None)"
| "task_step CooldownPass s t =
     (case task_phase t of
        Cooldown t0 d \<Rightarrow>
          if elapsed t0 d (clock s)
          then Some (s\<lparr>global_locked := False\<rparr>, t\<lparr>task_phase := Sending\<rparr>)
          else None
      | _ \<Rightarrow> None)"
| "task_step (CooldownAgain d') s t =
     (case task_phase t of
        Cooldown t0 d \<Rightarrow>
          if elapsed t0 d (clock s)
          then Some (s, t\<lparr>task_phase := Cooldown (clock s) d'\<rparr>)
          else None
      | _ \<Rightarrow> None)"
| "task_step (Complete out) s t =
     (if task_phase t = Sending then
        (case (case out of
                 Responded resp \<Rightarrow> on_response (clock s) resp t (client s)
               | Failed e \<Rightarrow> on_failure (clock s) e t (client s)) of
           (c, new_timers, ph) \<Rightarrow>
             Some (s\<lparr>client := c, timers := timers s @ new_timers\<rparr>, t\<lparr>task_phase := ph\<rparr>))
      else None)"
| "task_step AcquireHard s t =
     (case task_phase t of
        AwaitHard d \<Rightarrow>
          if \<not> global_locked s
          then Some (s\<lparr>global_locked := True\<rparr>, t\<lparr>task_phase := HardSleep (clock s) d\<rparr>)
          else None
      | _ \<Rightarrow> None)"
| "task_step ReleaseHard s t =
     (case task_phase t of
        HardSleep t0 d \<Rightarrow>
          if elapsed t0 d (clock s)
          then Some (s\<lparr>global_locked := False, client := fst (aexit (task_lock t) (client s))\<rparr>,
                     next_iteration (client s) t)
          else None
      | _ \<Rightarrow> None)"
| "task_step WakeDefer s t =
     (case task_phase t of
        DeferSleep t0 d \<Rightarrow>
          if elapsed t0 d (clock s) then
            (case unlock (task_lock t) (client s) of
               (None, c1, evs) \<Rightarrow>
                 Some (s\<lparr>client := fst (aexit (task_lock t) c1)\<rparr>, next_iteration (client s) t)
             | (Some e, c1, evs) \<Rightarrow>
                 Some (s\<lparr>client := fst (aexit (task_lock t) c1)\<rparr>,
                       t\<lparr>task_phase := Finished (Inl (Builtin e))\<rparr>))
          else None
      | _ \<Rightarrow> None)"
| "task_step WakeRetry s t =
     (case task_phase t of
        RetrySleep t0 d \<Rightarrow>
          if elapsed t0 d (clock s)
          then Some (s\<lparr>client := fst (aexit (task_lock t) (client s))\<rparr>, next_iteration (client s) t)
          else None
      | _ \<Rightarrow> None)"

text \<open>
  The steps of the system: a new call of \<open>request\<close> on a route (lines 256 to 272, with
  \<open>get_ratelimit\<close>); a step of task \<open>i\<close>; the timer at a position of the list fires
  (\<open>lock.unlock\<close>; an exception in it is only logged by the loop); the entry of a
  bucket hash leaves the \<open>WeakValueDictionary\<close>, its lock being referenced by no
  unfinished call and no timer; time passes.
\<close>

datatype label =
    Start route
  | Act nat task_label
  | FireTimer nat
  | Collect string
  | Tick rat

definition start_task :: "route \<Rightarrow> nat \<Rightarrow> http_client \<Rightarrow> task" where
  "start_task r a c =
     \<lparr>task_route = r, task_lock = a, task_attempt = 0,
      task_phase = (if 0 < max_attempts c then AwaitBucket else Finished (Inr JNull))\<rparr>"

fun is_finished :: "phase \<Rightarrow> bool" where
  "is_finished (Finished r) = True"
| "is_finished _ = False"

definition unreferenced :: "system \<Rightarrow> nat \<Rightarrow> bool" where
  "unreferenced s a =
     ((\<forall>t \<in> set (tasks s). task_lock t = a \<longrightarrow> is_finished (task_phase t))
      \<and> (\<forall>tm \<in> set (timers s). snd (snd tm) \<noteq> a))"

fun exec :: "label \<Rightarrow> system \<Rightarrow> system option" where
  "exec (Start r) s =
     (case get_ratelimit r (client s) of
        (a, c) \<Rightarrow> Some (s\<lparr>client := c, tasks := tasks s @ [start_task r a c]\<rparr>))"
| "exec (Act i l) s =
     (if i < length (tasks s) then
        (case task_step l s (tasks s ! i) of
           None \<Rightarrow> None
         | Some (s1, t) \<Rightarrow> Some (s1\<lparr>tasks := (tasks s1)[i := t]\<rparr>))
      else None)"
| "exec (FireTimer k) s =
     (if k < length (timers s) then
        (case timers s ! k of
           (t0, d, a) \<Rightarrow>
             if elapsed t0 d (clock s)
             then Some (s\<lparr>client := fst (snd (unlock a (client s))),
                          timers := take k (timers s) @ drop (Suc k) (timers s)\<rparr>)
             else None)
      else None)"
| "exec (Collect h) s =
     (case ratelimit_locks (client s) h of
        None \<Rightarrow> None
      | Some a \<Rightarrow>
          if unreferenced s a
          then Some (s\<lparr>client := (client s)\<lparr>ratelimit_locks := (ratelimit_locks (client s))(h := None)\<rparr>\<rparr>)
          else None)"
| "exec (Tick q) s = (if 0 \<le> q then Some (s\<lparr>clock := clock s + q\<rparr>) else None)"

fun run :: "label list \<Rightarrow> system \<Rightarrow> system option" where
  "run [] s = Some s"
| "run (l # ls) s = (case exec l s of None \<Rightarrow> None | Some s1 \<Rightarrow> run ls s1)"

section \<open>Predicates used to state the properties\<close>

text \<open>A header value that \<open>int(value or -1)\<close>, respectively \<open>float(value)\<close>, accepts.\<close>

definition accepts_int :: "string option \<Rightarrow> bool" where
  "accepts_int v = (case v of None \<Rightarrow> True | Some s \<Rightarrow> s = [] \<or> py_int s \<noteq> None)"

definition accepts_float :: "string option \<Rightarrow> bool" where
  "accepts_float v = (case v of None \<Rightarrow> True | Some s \<Rightarrow> py_float s \<noteq> None)"

definition numeric_headers :: "header \<Rightarrow> bool" where
  "numeric_headers h =
     (accepts_int (header_get h ''x-ratelimit-limit'')
      \<and> accepts_int (header_get h ''x-ratelimit-remaining'')
      \<and> accepts_float (header_get h ''x-ratelimit-reset-after''))"

text \<open>An iteration in which the session is open and the transfer yields a response.\<close>

definition respond :: "response \<Rightarrow> attempt_env" where
  "respond resp = \<lparr>session_closed = False, login_raises = None, transfer = Responded resp\<rparr>"

text \<open>The transfers, the sleeps and the timers of a trace.\<close>

fun sends :: "event list \<Rightarrow> http_request list" where
  "sends [] = []"
| "sends (Send req # evs) = req # sends evs"
| "sends (_ # evs) = sends evs"

fun sleeps :: "event list \<Rightarrow> pyfloat list" where
  "sleeps [] = []"
| "sleeps (Sleep d # evs) = d # sleeps evs"
| "sleeps (_ # evs) = sleeps evs"

text \<open>The fields \<open>files[i]\<close>, \<open>files[i+1]\<close>, ... for a list of files.\<close>

definition file_fields :: "nat \<Rightarrow> uploadable list \<Rightarrow> form_data" where
  "file_fields i fs =
     map (\<lambda>(j, f). (''files['' @ decimal j @ '']'', OpenFile f,
                     (case f of File n h \<Rightarrow> n | _ \<Rightarrow> None)))
       (enumerate i fs)"

definition files_list :: "files_arg \<Rightarrow> uploadable list" where
  "files_list files = (case files of FileList l \<Rightarrow> l | OneFile f \<Rightarrow> [f] | NoFiles \<Rightarrow> [])"

text \<open>Concrete inputs for the examples.\<close>

definition example_route :: route where
  "example_route =
     \<lparr>route_method = ''POST'', route_url = ''https://discord.com/api/v10/channels/1/messages'',
      endpoint = ''POST /channels/{channel_id}/messages'',
      rl_bucket = ''1:None:None:/channels/{channel_id}/messages''\<rparr>"

definition example_collaborators :: collaborators where
  "example_collaborators = \<lparr>dict_filter = (\<lambda>kvs. kvs), json_dumps = (\<lambda>p. ''{}'')\<rparr>"

definition server_error :: response where
  "server_error = \<lparr>status = 500, headers = [], result = JNull\<rparr>"

definition server_error_last_call :: response where
  "server_error_last_call =
     \<lparr>status = 500,
      headers = [(''x-ratelimit-remaining'', ''0''), (''x-ratelimit-reset-after'', ''1.5'')],
      result = JNull\<rparr>"

definition global_limit_hit :: response where
  "global_limit_hit =
     \<lparr>status = 429, headers = [],
      result = JObj [(''message'', JStr ''You are being rate limited.''),
                     (''retry_after'', JFloat (Finite (5 / 2))), (''global'', JBool True)]\<rparr>"

definition ok_response :: response where
  "ok_response = \<lparr>status = 200, headers = [], result = JObj [(''id'', JStr ''42'')]\<rparr>"

definition example_client :: http_client where
  "example_client = snd (alloc_bucket_lock (new_http_client ''DiscordBot''))"

definition example_call :: call where
  "example_call =
     \<lparr>call_route = example_route, call_payload = None, call_files = NoFiles,
      call_headers = [(''User-Agent'', ''DiscordBot'')], call_params = None, call_lock = 0\<rparr>"

definition example_file :: uploadable where
  "example_file = File (Some ''cat.png'') ''/tmp/cat.png''"

definition example_enums :: "string presence_enums" where
  "example_enums =
     \<lparr>status_by_name =
        map_of [(''ONLINE'', ''online''), (''OFFLINE'', ''offline''), (''DND'', ''dnd''),
                (''IDLE'', ''idle''), (''INVISIBLE'', ''invisible'')],
      status_online = ''online'',
      activity_create = (\<lambda>n. \<lparr>activity_name = n, activity_type = GAME, activity_url = None\<rparr>)\<rparr>"

definition example_shard :: connection_state where
  "example_shard = \<lparr>shard_id = 0, total_shards = 1, intents = 513, shard_ready = True\<rparr>"

text \<open>
  A task holds its bucket lock from \<open>__aenter__\<close> to \<open>__aexit__\<close>, and the lock of
  \<open>GlobalLock\<close> while it sleeps in \<open>rate_limit\<close> or in \<open>lock\<close>.
\<close>

fun holding :: "phase \<Rightarrow> bool" where
  "holding AwaitBucket = False"
| "holding (Finished r) = False"
| "holding _ = True"

fun global_holding :: "phase \<Rightarrow> bool" where
  "global_holding (Cooldown t d) = True"
| "global_holding (HardSleep t d) = True"
| "global_holding _ = False"

text \<open>
  Invariants of the system. Addresses in use lie below the next free address; a
  lock with a timer is locked, and has one timer; a lock held by a task is locked,
  has no timer, and is held by that task alone. The global lock is locked while a
  task holds it, and one task holds it at most.
\<close>

definition addrs_ok :: "system \<Rightarrow> bool" where
  "addrs_ok s =
     ((\<forall>t \<in> set (tasks s). task_lock t < next_addr (client s))
      \<and> (\<forall>tm \<in> set (timers s). snd (snd tm) < next_addr (client s))
      \<and> (\<forall>h a. ratelimit_locks (client s) h = Some a \<longrightarrow> a < next_addr (client s)))"

definition timers_ok :: "system \<Rightarrow> bool" where
  "timers_ok s =
     ((\<forall>tm \<in> set (timers s). locked (lock_store (client s) (snd (snd tm))))
      \<and> distinct (map (\<lambda>tm. snd (snd tm)) (timers s)))"

definition holders_ok :: "system \<Rightarrow> bool" where
  "holders_ok s =
     (\<forall>i < length (tasks s). holding (task_phase (tasks s ! i)) \<longrightarrow>
        locked (lock_store (client s) (task_lock (tasks s ! i)))
        \<and> (\<forall>tm \<in> set (timers s). snd (snd tm) \<noteq> task_lock (tasks s ! i))
        \<and> (\<forall>j < length (tasks s).
              holding (task_phase (tasks s ! j))
              \<and> task_lock (tasks s ! j) = task_lock (tasks s ! i) \<longrightarrow> j = i))"

definition lock_inv :: "system \<Rightarrow> bool" where
  "lock_inv s = (addrs_ok s \<and> timers_ok s \<and> holders_ok s)"


text \<open>Responses and traces for the examples of concurrent calls.\<close>

definition ok_with_bucket :: response where
  "ok_with_bucket =
     \<lparr>status = 200,
      headers = [(''x-ratelimit-bucket'', ''abcd1234''), (''x-ratelimit-limit'', ''5''),
                 (''x-ratelimit-remaining'', ''4''), (''x-ratelimit-reset-after'', ''1.0'')],
      result = JObj [(''id'', JStr ''42'')]\<rparr>"

definition server_error_with_bucket :: response where
  "server_error_with_bucket =
     \<lparr>status = 502,
      headers = [(''x-ratelimit-bucket'', ''abcd1234''), (''x-ratelimit-limit'', ''5''),
                 (''x-ratelimit-remaining'', ''4''), (''x-ratelimit-reset-after'', ''1.0'')],
      result = JNull\<rparr>"


section \<open>Properties\<close>

subsection \<open>Ingesting rate limit headers\<close>

lemma ingest_header_ok_iff:
  "fst (ingest_ratelimit_header h b) = None \<longleftrightarrow> numeric_headers h"
  by (auto simp: ingest_ratelimit_header_def numeric_headers_def Let_def accepts_int_def
      accepts_float_def int_or_minus_one_def float_or_zero_def
      split: sum.splits option.splits if_splits)

text \<open>
  C6. Ingesting the same header map a second time changes nothing: the lock after
  the second call (bucket hash, limit, remaining, delta and the rest) is the lock
  after the first, and the second call ends as the first did.
\<close>

theorem ingest_ratelimit_header_idempotent:
  "ingest_ratelimit_header h (snd (ingest_ratelimit_header h b)) = ingest_ratelimit_header h b"
  by (simp add: ingest_ratelimit_header_def Let_def split: sum.splits)

text \<open>
  C7, as claimed, fails: a header map whose \<open>x-ratelimit-limit\<close> is not a number
  makes \<open>ingest_ratelimit_header\<close> raise \<open>ValueError\<close>.
\<close>

theorem ingest_non_numeric_limit_raises:
  "fst (ingest_ratelimit_header [(''x-ratelimit-limit'', ''abc'')] new_bucket_lock)
     = Some ValueError"
  by code_simp

text \<open>
  C7, amended. \<open>ingest_ratelimit_header\<close> completes without raising whenever
  \<open>x-ratelimit-limit\<close> and \<open>x-ratelimit-remaining\<close> are each absent, empty or a
  string that \<open>int\<close> accepts, and \<open>x-ratelimit-reset-after\<close> is absent or a string
  that \<open>float\<close> accepts.
\<close>

theorem ingest_numeric_headers_no_raise:
  assumes "numeric_headers h"
  shows "fst (ingest_ratelimit_header h b) = None"
  using assms by (simp add: ingest_header_ok_iff)

theorem ingest_numeric_headers_no_raise_witness:
  "numeric_headers
     [(''X-RateLimit-Limit'', ''5''), (''x-ratelimit-remaining'', ''0''),
      (''x-ratelimit-reset-after'', ''1.0''), (''x-ratelimit-bucket'', ''abcd'')]
   \<and> fst (ingest_ratelimit_header
        [(''X-RateLimit-Limit'', ''5''), (''x-ratelimit-remaining'', ''0''),
         (''x-ratelimit-reset-after'', ''1.0''), (''x-ratelimit-bucket'', ''abcd'')]
        new_bucket_lock) = None"
proof -
  have h: "numeric_headers
     [(''X-RateLimit-Limit'', ''5''), (''x-ratelimit-remaining'', ''0''),
      (''x-ratelimit-reset-after'', ''1.0''), (''x-ratelimit-bucket'', ''abcd'')]"
    by code_simp
  show ?thesis
    using h ingest_numeric_headers_no_raise [OF h, of new_bucket_lock] by simp
qed

subsection \<open>The attempt loop of \<open>request\<close>\<close>

lemma ingest_ratelimit_fst:
  "fst (ingest_ratelimit r h a c) = fst (ingest_ratelimit_header h (lock_store c a))"
  by (simp add: ingest_ratelimit_def update_lock_def Let_def split: prod.splits option.splits)

lemma ingest_ratelimit_lock:
  "lock_store (snd (ingest_ratelimit r h a c)) a = snd (ingest_ratelimit_header h (lock_store c a))"
  by (simp add: ingest_ratelimit_def update_lock_def Let_def split: prod.splits option.splits)

lemma ingest_header_remaining:
  "numeric_headers h \<Longrightarrow> int_or_minus_one (header_get h ''x-ratelimit-remaining'') = Inr n
    \<Longrightarrow> remaining (snd (ingest_ratelimit_header h b)) = n"
  by (auto simp: ingest_ratelimit_header_def numeric_headers_def Let_def accepts_int_def
      accepts_float_def int_or_minus_one_def float_or_zero_def
      split: sum.splits option.splits if_splits)

lemma ingest_ratelimit_ok:
  "numeric_headers h \<Longrightarrow> ingest_ratelimit r h a c = (None, snd (ingest_ratelimit r h a c))"
  by (metis ingest_header_ok_iff ingest_ratelimit_fst prod.collapse)

lemma ingest_empty:
  "ingest_ratelimit_header [] b =
     (None, b\<lparr>bucket_hash := None, limit := - 1, remaining := - 1, delta := Finite 0\<rparr>)"
  by (simp add: ingest_ratelimit_header_def int_or_minus_one_def float_or_zero_def)

lemma upt_0_3: "[0..<3] = [0, 1, 2]"
  by (simp add: numeral_3_eq_3 upt_conv_Cons)

text \<open>
  C2. Three responses with status 500 (and no rate limit headers): the loop sleeps
  1, 3 and 5 seconds, makes three transfers, ends, and \<open>request\<close> returns \<open>None\<close>.
  No \<open>DiscordError\<close> is raised.
\<close>

theorem request_three_server_errors_returns_none:
  "case request d (new_http_client ua) r p files reason params (\<lambda>k. respond server_error) of
     (res, c, tr) \<Rightarrow>
       res = Inr JNull \<and> length (sends tr) = 3 \<and> sleeps tr = [Finite 1, Finite 3, Finite 5]"
  by (simp add: request_def get_ratelimit_def alloc_bucket_lock_def new_http_client_def
      attempt_iter_def try_body_def handle_response_def ingest_ratelimit_def
      except_oserror_def choose_branch_def aenter_def aexit_def update_lock_def
      respond_def server_error_def ingest_empty new_bucket_lock_def upt_0_3 retry_delay_def)

lemma handle_response_blind:
  assumes "ingest_ratelimit r (headers resp) a c = (None, c1)"
    "status resp \<in> {500, 502, 504}" "remaining (lock_store c1 a) = 0"
  shows "handle_response r a attempt resp c =
     (Raise (DiscordError resp (result resp) r), keep_locked_on_exit a c1,
      [CallLater (delta (lock_store (keep_locked_on_exit a c1) a)) a])"
proof -
  have br: "choose_branch resp (lock_store c1 a) = BlindDefer"
    using assms(2,3) by (auto simp: choose_branch_def)
  show ?thesis
    using assms(2)
    by (auto simp: handle_response_def assms(1) br blind_defer_unlock_def Let_def
        raise_or_return_def raise_exception_def)
qed

lemma handle_response_last_call:
  assumes "status resp \<in> {500, 502, 504}" "numeric_headers (headers resp)"
    "int_or_minus_one (header_get (headers resp) ''x-ratelimit-remaining'') = Inr 0"
  shows "handle_response r a attempt resp c =
     (Raise (DiscordError resp (result resp) r),
      keep_locked_on_exit a (snd (ingest_ratelimit r (headers resp) a c)),
      [CallLater (delta (lock_store (keep_locked_on_exit a
          (snd (ingest_ratelimit r (headers resp) a c))) a)) a])"
proof -
  have rem: "remaining (lock_store (snd (ingest_ratelimit r (headers resp) a c)) a) = 0"
    using assms(2,3) by (simp add: ingest_ratelimit_lock ingest_header_remaining)
  show ?thesis
    by (rule handle_response_blind [OF ingest_ratelimit_ok [OF assms(2)] assms(1) rem])
qed

text \<open>
  C3. The code departs from the claim. A response with status 500 whose headers set
  remaining to 0, on the first of three attempts: the timer for the deferred unlock
  is scheduled, and then the call raises \<open>DiscordError\<close> after one transfer, with
  no sleep and no retry. The branch for 500, 502 and 504 is an \<open>elif\<close> of the chain
  that the branch for \<open>remaining == 0\<close> belongs to, so it is not reached, although
  the latter is meant to go on processing the response.
\<close>

theorem server_error_on_last_call_not_retried:
  "case request example_collaborators (new_http_client ''DiscordBot'') example_route
          None NoFiles None None (\<lambda>k. respond server_error_last_call) of
     (res, c, tr) \<Rightarrow>
       res = Inl (DiscordError server_error_last_call JNull example_route)
       \<and> length (sends tr) = 1 \<and> sleeps tr = [] \<and> last tr = CallLater (Finite (3 / 2)) 0"
  by code_simp

text \<open>
  The same in general. For a response with status 500, 502 or 504 whose headers are
  numeric and set remaining to 0, the iteration acquires the lock, passes the global
  rate limit, makes the transfer, schedules the deferred unlock after the lock's
  delta, and then raises \<open>DiscordError\<close> with the response and the route: there is
  no sleep, no further attempt and no release of the lock other than by the timer.
\<close>

theorem last_call_server_error_raises:
  assumes "\<not> session_closed (env k)" "transfer (env k) = Responded resp"
    "status resp \<in> {500, 502, 504}" "numeric_headers (headers resp)"
    "int_or_minus_one (header_get (headers resp) ''x-ratelimit-remaining'') = Inr 0"
  shows "let a = call_lock cl;
             c2 = keep_locked_on_exit a
                    (snd (ingest_ratelimit (call_route cl) (headers resp) a (fst (aenter a c))))
         in attempts_loop d cl (attempt # rest) k env (c, tr) =
            (Inl (DiscordError resp (result resp) (call_route cl)), fst (aexit a c2),
             tr @ [Acquire a, RateLimit, Send (make_request d cl),
                   CallLater (delta (lock_store c2 a)) a])"
proof -
  let ?a = "call_lock cl"
  let ?c2 = "keep_locked_on_exit ?a
               (snd (ingest_ratelimit (call_route cl) (headers resp) ?a (fst (aenter ?a c))))"
  have x: "\<not> unlock_on_exit (lock_store ?c2 ?a)"
    by (simp add: keep_locked_on_exit_def update_lock_def)
  have it: "attempt_iter d cl attempt (env k) c =
      (Raise (DiscordError resp (result resp) (call_route cl)), fst (aexit ?a ?c2),
       [Acquire ?a, RateLimit, Send (make_request d cl), CallLater (delta (lock_store ?c2 ?a)) ?a])"
    using assms(1,2) x
    by (simp add: attempt_iter_def try_body_def handle_response_last_call [OF assms(3,4,5)]
        except_oserror_def aenter_def aexit_def Let_def)
  show ?thesis by (simp add: it Let_def)
qed

theorem last_call_server_error_raises_witness:
  "\<not> session_closed (respond server_error_last_call)
   \<and> transfer (respond server_error_last_call) = Responded server_error_last_call
   \<and> status server_error_last_call \<in> {500, 502, 504}
   \<and> numeric_headers (headers server_error_last_call)
   \<and> int_or_minus_one (header_get (headers server_error_last_call) ''x-ratelimit-remaining'') = Inr 0
   \<and> fst (attempts_loop example_collaborators example_call [0, 1, 2] 0
            (\<lambda>k. respond server_error_last_call) (example_client, []))
       = Inl (DiscordError server_error_last_call JNull example_route)
   \<and> snd (snd (attempts_loop example_collaborators example_call [0, 1, 2] 0
            (\<lambda>k. respond server_error_last_call) (example_client, [])))
       = [Acquire 0, RateLimit, Send (make_request example_collaborators example_call),
          CallLater (Finite (3 / 2)) 0]"
proof -
  have h1: "\<not> session_closed ((\<lambda>k. respond server_error_last_call) (0::nat))"
    by (simp add: respond_def)
  have h2: "transfer ((\<lambda>k. respond server_error_last_call) (0::nat)) = Responded server_error_last_call"
    by (simp add: respond_def)
  have h3: "status server_error_last_call \<in> {500, 502, 504}"
    by (simp add: server_error_last_call_def)
  have h4: "numeric_headers (headers server_error_last_call)"
    by code_simp
  have h5: "int_or_minus_one (header_get (headers server_error_last_call) ''x-ratelimit-remaining'') = Inr 0"
    by code_simp
  have dl: "delta (lock_store (keep_locked_on_exit 0
              (snd (ingest_ratelimit example_route (headers server_error_last_call) 0
                     (fst (aenter 0 example_client))))) 0) = Finite (3 / 2)"
    by code_simp
  have r: "result server_error_last_call = JNull"
    by (simp add: server_error_last_call_def)
  have cl: "call_lock example_call = 0" "call_route example_call = example_route"
    by (simp_all add: example_call_def)
  show ?thesis
    using h1 h2 h3 h4 h5
      last_call_server_error_raises [where env = "\<lambda>k. respond server_error_last_call"
        and k = 0 and resp = server_error_last_call and cl = example_call
        and c = example_client and d = example_collaborators and attempt = 0
        and rest = "[1, 2]" and tr = "[]", OF h1 h2 h3 h4 h5]
    by (simp add: Let_def cl dl r)
qed

lemma handle_response_global_aux:
  assumes "ingest_ratelimit r (headers resp) a c = (None, c1)"
    "status resp = 429" "result resp = JObj kvs"
    "truthy (case dict_get kvs ''global'' of None \<Rightarrow> JBool False | Some v \<Rightarrow> v)"
    "retry_after kvs = Inr R"
  shows "handle_response r a attempt resp c = (Continue, c1, [GlobalAcquire, Sleep R, GlobalRelease])"
proof -
  have br: "choose_branch resp (lock_store c1 a) = GlobalRetry R"
    using assms(2-5) by (simp add: choose_branch_def)
  show ?thesis
    by (simp add: handle_response_def assms(1) br global_lock_lock_def)
qed

lemma handle_response_global:
  assumes "status resp = 429" "result resp = JObj kvs"
    "truthy (case dict_get kvs ''global'' of None \<Rightarrow> JBool False | Some v \<Rightarrow> v)"
    "retry_after kvs = Inr R" "numeric_headers (headers resp)"
  shows "handle_response r a attempt resp c =
     (Continue, snd (ingest_ratelimit r (headers resp) a c), [GlobalAcquire, Sleep R, GlobalRelease])"
  by (rule handle_response_global_aux [OF ingest_ratelimit_ok [OF assms(5)] assms(1-4)])

text \<open>
  C4, as claimed, fails: three responses 429 with \<open>global: true\<close> use up the three
  attempts. The call makes three transfers, holds the global lock for 2.5 seconds
  each time, and returns \<open>None\<close> without making the fourth transfer, which would
  have been answered with status 200.
\<close>

theorem global_limit_consumes_attempts:
  "case request example_collaborators (new_http_client ''DiscordBot'') example_route
          None NoFiles None None
          (\<lambda>k. respond (if k < 3 then global_limit_hit else ok_response)) of
     (res, c, tr) \<Rightarrow>
       res = Inr JNull \<and> length (sends tr) = 3
       \<and> sleeps tr = [Finite (5 / 2), Finite (5 / 2), Finite (5 / 2)]"
  by code_simp

text \<open>
  C4, amended. For a response 429 whose body is an object with a truthy \<open>global\<close>
  and a \<open>retry_after\<close> that \<open>float\<close> accepts as \<open>R\<close> (and numeric rate limit headers),
  the iteration acquires the lock of \<open>GlobalLock\<close>, sleeps \<open>R\<close> seconds, releases it,
  leaves the bucket lock's context and goes on with the next iteration of the loop:
  the attempts that remain are those after the current one, so the 429 has used
  one attempt.
\<close>

theorem global_limit_next_attempt:
  assumes "\<not> session_closed (env k)" "transfer (env k) = Responded resp"
    "status resp = 429" "result resp = JObj kvs"
    "truthy (case dict_get kvs ''global'' of None \<Rightarrow> JBool False | Some v \<Rightarrow> v)"
    "retry_after kvs = Inr R" "numeric_headers (headers resp)"
  shows "let a = call_lock cl;
             c1 = snd (ingest_ratelimit (call_route cl) (headers resp) a (fst (aenter a c)))
         in attempts_loop d cl (attempt # rest) k env (c, tr) =
            attempts_loop d cl rest (Suc k) env
              (fst (aexit a c1),
               tr @ [Acquire a, RateLimit, Send (make_request d cl),
                     GlobalAcquire, Sleep R, GlobalRelease] @ snd (aexit a c1))"
proof -
  let ?a = "call_lock cl"
  let ?c1 = "snd (ingest_ratelimit (call_route cl) (headers resp) ?a (fst (aenter ?a c)))"
  have it: "attempt_iter d cl attempt (env k) c =
      (Continue, fst (aexit ?a ?c1),
       [Acquire ?a, RateLimit, Send (make_request d cl), GlobalAcquire, Sleep R, GlobalRelease]
         @ snd (aexit ?a ?c1))"
    using assms(1,2)
    by (simp add: attempt_iter_def try_body_def handle_response_global [OF assms(3-7)]
        except_oserror_def aenter_def Let_def split: prod.splits)
  show ?thesis by (simp add: it Let_def)
qed

theorem global_limit_next_attempt_witness:
  "\<not> session_closed (respond global_limit_hit)
   \<and> transfer (respond global_limit_hit) = Responded global_limit_hit
   \<and> status global_limit_hit = 429
   \<and> retry_after [(''message'', JStr ''You are being rate limited.''),
                   (''retry_after'', JFloat (Finite (5 / 2))), (''global'', JBool True)] = Inr (Finite (5 / 2))
   \<and> numeric_headers (headers global_limit_hit)
   \<and> fst (attempts_loop example_collaborators example_call [2] 0
            (\<lambda>k. respond (if k < 1 then global_limit_hit else ok_response)) (example_client, []))
       = Inr JNull
   \<and> sleeps (snd (snd (attempts_loop example_collaborators example_call [2] 0
            (\<lambda>k. respond (if k < 1 then global_limit_hit else ok_response)) (example_client, []))))
       = [Finite (5 / 2)]"
proof -
  let ?env = "\<lambda>k::nat. respond (if k < 1 then global_limit_hit else ok_response)"
  let ?kvs = "[(''message'', JStr ''You are being rate limited.''),
               (''retry_after'', JFloat (Finite (5 / 2))), (''global'', JBool True)]"
  have h1: "\<not> session_closed (?env 0)"
    by (simp add: respond_def)
  have h2: "transfer (?env 0) = Responded global_limit_hit"
    by (simp add: respond_def)
  have h3: "status global_limit_hit = 429"
    by (simp add: global_limit_hit_def)
  have h4: "result global_limit_hit = JObj ?kvs"
    by (simp add: global_limit_hit_def)
  have h5: "truthy (case dict_get ?kvs ''global'' of None \<Rightarrow> JBool False | Some v \<Rightarrow> v)"
    by (simp add: dict_get_def)
  have h6: "retry_after ?kvs = Inr (Finite (5 / 2))"
    by (simp add: retry_after_def dict_get_def)
  have h7: "numeric_headers (headers global_limit_hit)"
    by code_simp
  have s: "sleeps (snd (aexit a c)) = []" for a c
    by (simp add: aexit_def Let_def)
  have sa: "sleeps (xs @ ys) = sleeps xs @ sleeps ys" for xs ys
    by (induction xs rule: sleeps.induct) simp_all
  show ?thesis
    using h1 h2 h3 h6 h7
      global_limit_next_attempt [where env = ?env and k = 0 and resp = global_limit_hit
        and kvs = ?kvs and R = "Finite (5 / 2)" and cl = example_call
        and c = example_client and d = example_collaborators and attempt = 2
        and rest = "[]" and tr = "[]", OF h1 h2 h3 h4 h5 h6 h7]
    by (simp add: Let_def s sa respond_def)
qed

subsection \<open>Encoding of the request body\<close>

lemma add_files_fields: "add_files i fs form = form @ file_fields i fs"
  by (induction fs arbitrary: i form) (simp_all add: file_fields_def Let_def)

lemma process_payload_form:
  "files_truthy files \<Longrightarrow> process_payload d (Some p) files =
     ProcForm ((''payload_json'', Text (json_dumps d (filter_payload d p)), None)
               # file_fields 0 (files_list files))"
  by (simp add: process_payload_def Let_def add_files_fields files_list_def)

lemma sends_append: "sends (xs @ ys) = sends xs @ sends ys"
  by (induction xs rule: sends.induct) simp_all

lemma sends_defer: "sends (snd (snd (defer_unlock a x c))) = []"
  by (simp add: defer_unlock_def unlock_def Let_def)

lemma sends_raise_or_return: "sends evs = [] \<Longrightarrow> sends (snd (snd (raise_or_return r resp c evs))) = []"
  by (simp add: raise_or_return_def)

lemma sends_handle_response: "sends (snd (snd (handle_response r a attempt resp c))) = []"
proof -
  obtain e c1 where i: "ingest_ratelimit r (headers resp) a c = (e, c1)"
    by (cases "ingest_ratelimit r (headers resp) a c")
  show ?thesis
  proof (cases e)
    case (Some err)
    then show ?thesis by (simp add: handle_response_def i)
  next
    case None
    show ?thesis
    proof (cases "choose_branch resp (lock_store c1 a)")
      case (GlobalRetry x)
      then show ?thesis by (simp add: handle_response_def i None global_lock_lock_def)
    next
      case (DeferRetry x)
      obtain e2 c2 evs where du: "defer_unlock a x c1 = (e2, c2, evs)"
        by (cases "defer_unlock a x c1")
      have "sends evs = []" using sends_defer [of a x c1] du by simp
      then show ?thesis
        by (cases e2) (simp_all add: handle_response_def i None DeferRetry du)
    next
      case BlindDefer
      then show ?thesis
        by (simp add: handle_response_def i None blind_defer_unlock_def Let_def sends_raise_or_return)
    next
      case ServerRetry
      then show ?thesis by (simp add: handle_response_def i None)
    next
      case Finish
      then show ?thesis by (simp add: handle_response_def i None sends_raise_or_return)
    next
      case (Fail x)
      then show ?thesis by (simp add: handle_response_def i None)
    qed
  qed
qed

lemma sends_try_body:
  "set (sends (snd (snd (try_body d cl attempt e c)))) \<subseteq> {make_request d cl}"
proof (cases "if session_closed e then login_raises e else None")
  case (Some err)
  then show ?thesis by (simp add: try_body_def Let_def)
next
  case None
  show ?thesis
  proof (cases "transfer e")
    case (Failed err)
    then show ?thesis by (simp add: try_body_def Let_def None sends_append)
  next
    case (Responded resp)
    obtain fl c1 evs where h: "handle_response (call_route cl) (call_lock cl) attempt resp c = (fl, c1, evs)"
      by (cases "handle_response (call_route cl) (call_lock cl) attempt resp c")
    have "sends evs = []"
      using sends_handle_response [of "call_route cl" "call_lock cl" attempt resp c] h by simp
    then show ?thesis by (simp add: try_body_def Let_def None Responded h sends_append)
  qed
qed

lemma sends_except: "sends (snd (except_oserror c attempt fl)) = []"
  by (simp add: except_oserror_def split: flow.splits error.splits)

lemma sends_aexit: "sends (snd (aexit a c)) = []"
  by (simp add: aexit_def Let_def)

lemma sends_attempt_iter:
  "set (sends (snd (snd (attempt_iter d cl attempt e c)))) \<subseteq> {make_request d cl}"
proof -
  obtain fl c2 evs2 where t: "try_body d cl attempt e (fst (aenter (call_lock cl) c)) = (fl, c2, evs2)"
    by (cases "try_body d cl attempt e (fst (aenter (call_lock cl) c))")
  have s2: "set (sends evs2) \<subseteq> {make_request d cl}"
    using sends_try_body [of d cl attempt e "fst (aenter (call_lock cl) c)"] t by simp
  obtain fl' evs3 where x: "except_oserror c2 attempt fl = (fl', evs3)"
    by (cases "except_oserror c2 attempt fl")
  have s3: "sends evs3 = []" using sends_except [of c2 attempt fl] x by simp
  obtain c3 evs4 where y: "aexit (call_lock cl) c2 = (c3, evs4)"
    by (cases "aexit (call_lock cl) c2")
  have s4: "sends evs4 = []" using sends_aexit [of "call_lock cl" c2] y by simp
  have "attempt_iter d cl attempt e c = (fl', c3, [Acquire (call_lock cl)] @ evs2 @ evs3 @ evs4)"
    using t x y by (simp add: attempt_iter_def aenter_def)
  then show ?thesis using s2 s3 s4 by (simp add: sends_append)
qed

lemma sends_attempts_loop:
  "set (sends (snd (snd (attempts_loop d cl atts k env (c, tr))))) \<subseteq> set (sends tr) \<union> {make_request d cl}"
proof (induction atts arbitrary: k c tr)
  case Nil
  then show ?case by auto
next
  case (Cons attempt rest)
  obtain fl c1 evs where it: "attempt_iter d cl attempt (env k) c = (fl, c1, evs)"
    by (metis prod_cases3)
  have s: "set (sends evs) \<subseteq> {make_request d cl}"
    using sends_attempt_iter [of d cl attempt "env k" c] it by simp
  show ?case
  proof (cases fl)
    case Continue
    then show ?thesis
      using Cons.IH [of "Suc k" c1 "tr @ evs"] s it by (auto simp: sends_append)
  next
    case (Return v)
    then show ?thesis using s it by (auto simp: sends_append)
  next
    case (Raise e)
    then show ?thesis using s it by (auto simp: sends_append)
  qed
qed

text \<open>
  C9, as claimed, fails: with files present and no payload, \<open>_process_payload\<close>
  returns \<open>None\<close>, and the transfer is made with \<open>json=None\<close>: no form data, and the
  file is not sent.
\<close>

theorem files_without_payload_dropped:
  "process_payload example_collaborators None (FileList [example_file]) = ProcNone
   \<and> map req_body (sends (snd (snd (request example_collaborators (new_http_client ''DiscordBot'')
         example_route None (FileList [example_file]) None None (\<lambda>k. respond ok_response)))))
       = [ProcNone]"
  by code_simp

text \<open>
  C9, amended. For every call of \<open>request\<close> with a payload other than \<open>None\<close> and
  with files present, the payload is encoded as form data whose first field is
  \<open>payload_json\<close> (the filtered payload as JSON) followed by one field \<open>files[i]\<close> per
  file; every transfer of the call carries that form data as its body, and the
  header \<open>Content-Type: application/json\<close> is not set.
\<close>

theorem files_sent_as_form_data:
  assumes "files_truthy files"
  shows "process_payload d (Some p) files =
           ProcForm ((''payload_json'', Text (json_dumps d (filter_payload d p)), None)
                     # file_fields 0 (files_list files))
     \<and> (\<forall>req \<in> set (sends (snd (snd (request d c r (Some p) files reason params env)))).
           req_body req = ProcForm ((''payload_json'', Text (json_dumps d (filter_payload d p)), None)
                     # file_fields 0 (files_list files))
           \<and> (''Content-Type'', ''application/json'') \<notin> set (req_headers req))"
proof -
  have ct: "(''Content-Type'', ''application/json'') \<notin> set (assemble_headers c (Some p) files reason)"
    using assms by (auto simp: assemble_headers_def split: option.splits)
  have "set (sends (snd (snd (request d c r (Some p) files reason params env))))
        \<subseteq> {make_request d \<lparr>call_route = r, call_payload = Some p, call_files = files,
             call_headers = assemble_headers c (Some p) files reason,
             call_params = map_option (dict_filter d) params,
             call_lock = fst (get_ratelimit r c)\<rparr>}"
    using sends_attempts_loop [where tr = "[]"]
    by (simp add: request_def split: prod.splits)
  then show ?thesis
    using ct process_payload_form [OF assms] by (auto simp: make_request_def)
qed

theorem files_sent_as_form_data_witness:
  "files_truthy (FileList [example_file])
   \<and> process_payload example_collaborators (Some (Dict [(''content'', JStr ''hi'')]))
        (FileList [example_file])
       = ProcForm [(''payload_json'', Text ''{}'', None),
                   (''files[0]'', OpenFile example_file, Some ''cat.png'')]"
proof -
  have h: "files_truthy (FileList [example_file])"
    by simp
  have f: "file_fields 0 (files_list (FileList [example_file]))
             = [(''files[0]'', OpenFile example_file, Some ''cat.png'')]"
    by (simp add: file_fields_def files_list_def example_file_def decimal.simps digit_char_def)
  show ?thesis
    using h files_sent_as_form_data [OF h, of example_collaborators "Dict [(''content'', JStr ''hi'')]"]
    by (simp add: f example_collaborators_def)
qed

subsection \<open>The gateway connection\<close>

text \<open>
  C8. When the gateway closes with code 4011, 4013 or 4014 (while running, or while
  the connection is entered), \<open>_ws_connect\<close> raises a \<open>NaffException\<close> whose message
  names shards, respectively intents; the connection has been opened once, and no
  further connection is attempted.
\<close>

theorem fatal_close_codes_raise:
  assumes "code \<in> {4011, 4013, 4014}"
  shows "ws_connect show_intents (RunRaised (WebSocketClosed code)) st =
           (Some (NaffException
              (if code = 4011 then ''Your bot is too large, you must use shards''
               else if code = 4013
                 then ''Invalid Intents have been passed: '' @ show_intents (intents st)
               else ''You have requested privileged intents that have not been enabled or approved. Check the developer dashboard'')),
            st\<lparr>shard_ready := False\<rparr>,
            [LogInfo, OpenGateway, RunGateway,
             Dispatch (if total_shards st = 1 then Disconnect else ShardDisconnect (shard_id st))])
        \<and> ws_connect show_intents (EnterRaised (WebSocketClosed code)) st =
           (Some (NaffException
              (if code = 4011 then ''Your bot is too large, you must use shards''
               else if code = 4013
                 then ''Invalid Intents have been passed: '' @ show_intents (intents st)
               else ''You have requested privileged intents that have not been enabled or approved. Check the developer dashboard'')),
            st, [LogInfo, OpenGateway])"
  using assms by (auto simp: ws_connect_def ws_handlers_def ws_finally_def)

theorem fatal_close_codes_raise_witness:
  "(4013::int) \<in> {4011, 4013, 4014}
   \<and> ws_connect (\<lambda>i. ''Intents.GUILDS|GUILD_MESSAGES'') (RunRaised (WebSocketClosed 4013)) example_shard =
     (Some (NaffException ''Invalid Intents have been passed: Intents.GUILDS|GUILD_MESSAGES''),
      example_shard\<lparr>shard_ready := False\<rparr>, [LogInfo, OpenGateway, RunGateway, Dispatch Disconnect])"
proof -
  have h: "(4013::int) \<in> {4011, 4013, 4014}" by simp
  show ?thesis
    using h fatal_close_codes_raise [OF h, of "\<lambda>i. ''Intents.GUILDS|GUILD_MESSAGES''" example_shard]
    by (simp add: example_shard_def)
qed

subsection \<open>Changing the presence\<close>

lemma check_activity_warnings:
  "ev \<in> set (snd (check_activity en act cl)) \<Longrightarrow> \<exists>w. ev = Warning w"
  by (cases act) (auto simp: activity_warnings_def Let_def split: if_splits)

text \<open>
  C10, as claimed, fails: the empty string names no member of \<open>Status\<close>, yet
  \<open>change_presence\<close> raises nothing for it; it takes the branch for \<open>None\<close>, sets the
  status to online and forwards the update to the gateway.
\<close>

theorem empty_status_accepted:
  "status_by_name example_enums (upper []) = None
   \<and> change_presence example_enums (StatusStr []) ActivityMissing
        \<lparr>client_status = None, client_activity = None\<rparr>
     = (None, \<lparr>client_status = Some ''online'', client_activity = None\<rparr>,
        [Warning DefaultingToOnline, GatewayChangePresence None ''online''])"
  by code_simp

text \<open>
  C10, amended. For every non-empty string passed as status whose upper-cased form
  names no member of \<open>Status\<close>, \<open>change_presence\<close> raises \<open>ValueError\<close>, leaves the
  client's status and activity as they were and forwards nothing to the gateway
  (its only effects are warnings). That is the only exception the method raises:
  an activity of a type that is not allowed only logs a warning.
\<close>

theorem invalid_status_raises:
  "(s \<noteq> [] \<and> status_by_name en (upper s) = None \<longrightarrow>
      fst (change_presence en (StatusStr s) act cl) = Some ValueError
      \<and> fst (snd (change_presence en (StatusStr s) act cl)) = cl
      \<and> (\<forall>ev \<in> set (snd (snd (change_presence en (StatusStr s) act cl))). \<exists>w. ev = Warning w))
   \<and> (fst (change_presence en st act cl) \<noteq> None \<longleftrightarrow>
        (\<exists>s'. st = StatusStr s' \<and> s' \<noteq> [] \<and> status_by_name en (upper s') = None))"
proof -
  have 1: "fst (change_presence en st act cl) \<noteq> None \<longleftrightarrow>
        (\<exists>s'. st = StatusStr s' \<and> s' \<noteq> [] \<and> status_by_name en (upper s') = None)"
    by (cases st)
      (auto simp: change_presence_def fallback_status_def split: prod.splits option.splits sum.splits)
  have 2: "s \<noteq> [] \<and> status_by_name en (upper s) = None \<longrightarrow>
      fst (change_presence en (StatusStr s) act cl) = Some ValueError
      \<and> fst (snd (change_presence en (StatusStr s) act cl)) = cl
      \<and> (\<forall>ev \<in> set (snd (snd (change_presence en (StatusStr s) act cl))). \<exists>w. ev = Warning w)"
    using check_activity_warnings [of _ en act cl]
    by (auto simp: change_presence_def split: prod.splits)
  show ?thesis using 1 2 by blast
qed

theorem invalid_status_raises_witness:
  "''bogus'' \<noteq> [] \<and> status_by_name example_enums (upper ''bogus'') = None
   \<and> change_presence example_enums (StatusStr ''bogus'')
        (ActivityObject \<lparr>activity_name = ''chess'', activity_type = OtherType 4, activity_url = None\<rparr>)
        \<lparr>client_status = Some ''idle'', client_activity = None\<rparr>
     = (Some ValueError, \<lparr>client_status = Some ''idle'', client_activity = None\<rparr>,
        [Warning (TypeNotEnabled (OtherType 4))])"
proof -
  have h: "''bogus'' \<noteq> [] \<and> status_by_name example_enums (upper ''bogus'') = None"
    by code_simp
  have e: "snd (snd (change_presence example_enums (StatusStr ''bogus'')
        (ActivityObject \<lparr>activity_name = ''chess'', activity_type = OtherType 4, activity_url = None\<rparr>)
        \<lparr>client_status = Some ''idle'', client_activity = None\<rparr>))
      = [Warning (TypeNotEnabled (OtherType 4))]"
    by code_simp
  show ?thesis
    using h e invalid_status_raises [of "''bogus''" example_enums
        "ActivityObject \<lparr>activity_name = ''chess'', activity_type = OtherType 4, activity_url = None\<rparr>"
        "\<lparr>client_status = Some ''idle'', client_activity = None\<rparr>"]
    by (metis prod.collapse)
qed

section \<open>Properties of concurrent calls\<close>

subsection \<open>Effects of the lock operations on the client\<close>

lemma aenter_frame [simp]:
  "next_addr (fst (aenter a c)) = next_addr c"
  "ratelimit_locks (fst (aenter a c)) = ratelimit_locks c"
  "max_attempts (fst (aenter a c)) = max_attempts c"
  "locked (lock_store (fst (aenter a c)) a') = (a' = a \<or> locked (lock_store c a'))"
  by (simp_all add: aenter_def update_lock_def)

lemma aexit_frame [simp]:
  "next_addr (fst (aexit a c)) = next_addr c"
  "ratelimit_locks (fst (aexit a c)) = ratelimit_locks c"
  "max_attempts (fst (aexit a c)) = max_attempts c"
  by (simp_all add: aexit_def update_lock_def Let_def)

lemma aexit_other: "a' \<noteq> a \<Longrightarrow> locked (lock_store (fst (aexit a c)) a') = locked (lock_store c a')"
  by (simp add: aexit_def update_lock_def Let_def)

lemma aexit_kept:
  "\<not> unlock_on_exit (lock_store c a) \<Longrightarrow>
     locked (lock_store (fst (aexit a c)) a) = locked (lock_store c a)"
  by (simp add: aexit_def update_lock_def Let_def)

lemma ingest_frame [simp]:
  "next_addr (snd (ingest_ratelimit r h a c)) = next_addr c"
  "max_attempts (snd (ingest_ratelimit r h a c)) = max_attempts c"
  "locked (lock_store (snd (ingest_ratelimit r h a c)) a') = locked (lock_store c a')"
  by (auto simp: ingest_ratelimit_def update_lock_def Let_def ingest_ratelimit_header_def
      split: prod.splits option.splits sum.splits)

lemma ingest_registry:
  "ratelimit_locks (snd (ingest_ratelimit r h a c)) bh = Some a' \<Longrightarrow>
     a' = a \<or> ratelimit_locks c bh = Some a'"
  by (auto simp: ingest_ratelimit_def update_lock_def Let_def
      split: prod.splits option.splits if_splits)

lemma keep_frame [simp]:
  "next_addr (keep_locked_on_exit a c) = next_addr c"
  "ratelimit_locks (keep_locked_on_exit a c) = ratelimit_locks c"
  "max_attempts (keep_locked_on_exit a c) = max_attempts c"
  "locked (lock_store (keep_locked_on_exit a c) a') = locked (lock_store c a')"
  "\<not> unlock_on_exit (lock_store (keep_locked_on_exit a c) a)"
  by (simp_all add: keep_locked_on_exit_def update_lock_def)

lemma unlock_frame [simp]:
  "next_addr (fst (snd (unlock a c))) = next_addr c"
  "ratelimit_locks (fst (snd (unlock a c))) = ratelimit_locks c"
  "max_attempts (fst (snd (unlock a c))) = max_attempts c"
  "locked (lock_store (fst (snd (unlock a c))) a') = (a' \<noteq> a \<and> locked (lock_store c a'))"
  by (auto simp: unlock_def update_lock_def)


lemma raise_or_return_frame [simp]:
  "fst (snd (raise_or_return r resp c evs)) = c"
  "snd (snd (raise_or_return r resp c evs)) = evs"
  "fst (raise_or_return r resp c evs) \<noteq> Continue"
  by (simp_all add: raise_or_return_def)

lemma holding_finished [simp]: "\<not> holding (Finished r)"
  by simp

lemma on_response_frame:
  assumes "on_response now resp t c = (c', tms, ph)"
  shows "next_addr c' = next_addr c \<and> max_attempts c' = max_attempts c
    \<and> (\<forall>a'. a' \<noteq> task_lock t \<longrightarrow> locked (lock_store c' a') = locked (lock_store c a'))
    \<and> (\<forall>bh a'. ratelimit_locks c' bh = Some a' \<longrightarrow> a' = task_lock t \<or> ratelimit_locks c bh = Some a')
    \<and> (holding ph \<longrightarrow> locked (lock_store c' (task_lock t)) = locked (lock_store c (task_lock t)))
    \<and> (tms = [] \<or> (\<exists>d. tms = [(now, d, task_lock t)] \<and> \<not> holding ph
          \<and> locked (lock_store c' (task_lock t)) = locked (lock_store c (task_lock t))))"
proof -
  let ?a = "task_lock t"
  obtain e c1 where i: "ingest_ratelimit (task_route t) (headers resp) ?a c = (e, c1)"
    by (cases "ingest_ratelimit (task_route t) (headers resp) ?a c")
  have c1: "c1 = snd (ingest_ratelimit (task_route t) (headers resp) ?a c)"
    by (simp add: i)
  have n1 [simp]: "next_addr c1 = next_addr c" "max_attempts c1 = max_attempts c"
    "\<And>a'. locked (lock_store c1 a') = locked (lock_store c a')"
    by (simp_all add: c1)
  have reg: "\<forall>bh a'. ratelimit_locks c1 bh = Some a' \<longrightarrow> a' = ?a \<or> ratelimit_locks c bh = Some a'"
    unfolding c1 using ingest_registry by blast
  show ?thesis
  proof (cases e)
    case (Some err)
    then have "c' = fst (aexit ?a c1)" "tms = []" "ph = Finished (Inl (Builtin err))"
      using assms i by (auto simp: on_response_def Let_def)
    then show ?thesis using reg by (simp add: aexit_other)
  next
    case None
    show ?thesis
    proof (cases "choose_branch resp (lock_store c1 ?a)")
      case (GlobalRetry d)
      then have "c' = c1" "tms = []" "ph = AwaitHard d"
        using assms i None by (auto simp: on_response_def Let_def)
      then show ?thesis using reg by simp
    next
      case (DeferRetry x)
      then have "c' = keep_locked_on_exit ?a c1" "tms = []" "holding ph"
        using assms i None by (auto simp: on_response_def Let_def)
      then show ?thesis using reg by simp
    next
      case BlindDefer
      let ?c2 = "keep_locked_on_exit ?a c1"
      have "c' = fst (aexit ?a ?c2)" "tms = [(now, delta (lock_store ?c2 ?a), ?a)]"
        "\<not> holding ph"
        using assms i None BlindDefer
        by (auto simp: on_response_def Let_def blind_defer_unlock_def raise_or_return_def
            split: if_splits)
      then show ?thesis using reg by (simp add: aexit_other aexit_kept)
    next
      case ServerRetry
      then have "c' = c1" "tms = []" "ph = RetrySleep now (retry_delay (task_attempt t))"
        using assms i None by (auto simp: on_response_def Let_def)
      then show ?thesis using reg by simp
    next
      case Finish
      then have "c' = fst (aexit ?a c1)" "tms = []" "\<not> holding ph"
        using assms i None
        by (auto simp: on_response_def Let_def raise_or_return_def split: if_splits)
      then show ?thesis using reg by (simp add: aexit_other)
    next
      case (Fail err)
      then have "c' = fst (aexit ?a c1)" "tms = []" "ph = Finished (Inl err)"
        using assms i None by (auto simp: on_response_def Let_def)
      then show ?thesis using reg by (simp add: aexit_other)
    qed
  qed
qed

lemma on_failure_frame:
  assumes "on_failure now e t c = (c', tms, ph)"
  shows "next_addr c' = next_addr c \<and> max_attempts c' = max_attempts c
    \<and> (\<forall>a'. a' \<noteq> task_lock t \<longrightarrow> locked (lock_store c' a') = locked (lock_store c a'))
    \<and> (\<forall>bh a'. ratelimit_locks c' bh = Some a' \<longrightarrow> a' = task_lock t \<or> ratelimit_locks c bh = Some a')
    \<and> (holding ph \<longrightarrow> locked (lock_store c' (task_lock t)) = locked (lock_store c (task_lock t)))
    \<and> (tms = [] \<or> (\<exists>d. tms = [(now, d, task_lock t)] \<and> \<not> holding ph
          \<and> locked (lock_store c' (task_lock t)) = locked (lock_store c (task_lock t))))"
proof (cases "fst (except_oserror c (task_attempt t) (Raise e))")
  case Continue
  then have "c' = c" "tms = []" "ph = RetrySleep now (retry_delay (task_attempt t))"
    using assms by (auto simp: on_failure_def)
  then show ?thesis by simp
next
  case (Return v)
  then have "c' = fst (aexit (task_lock t) c)" "tms = []" "\<not> holding ph"
    using assms by (auto simp: on_failure_def)
  then show ?thesis by (simp add: aexit_other)
next
  case (Raise e')
  then have "c' = fst (aexit (task_lock t) c)" "tms = []" "\<not> holding ph"
    using assms by (auto simp: on_failure_def)
  then show ?thesis by (simp add: aexit_other)
qed


lemma next_iteration_frame [simp]:
  "task_lock (next_iteration c t) = task_lock t"
  "\<not> holding (task_phase (next_iteration c t))"
  "\<not> global_holding (task_phase (next_iteration c t))"
  "task_phase (next_iteration c t) \<noteq> Sending"
  by (simp_all add: next_iteration_def)

lemma task_step_frame:
  assumes "task_step l s t = Some (s1, t')"
  shows "task_lock t' = task_lock t \<and> tasks s1 = tasks s
    \<and> next_addr (client s1) = next_addr (client s)
    \<and> (\<forall>a'. a' \<noteq> task_lock t \<longrightarrow>
          locked (lock_store (client s1) a') = locked (lock_store (client s) a'))
    \<and> (\<forall>bh a'. ratelimit_locks (client s1) bh = Some a' \<longrightarrow>
          a' = task_lock t \<or> ratelimit_locks (client s) bh = Some a')
    \<and> (\<not> holding (task_phase t) \<longrightarrow>
          holding (task_phase t') \<and> \<not> locked (lock_store (client s) (task_lock t))
          \<and> locked (lock_store (client s1) (task_lock t)))
    \<and> (holding (task_phase t) \<and> holding (task_phase t') \<longrightarrow>
          locked (lock_store (client s1) (task_lock t)) = locked (lock_store (client s) (task_lock t)))
    \<and> (timers s1 = timers s
        \<or> (\<exists>d. timers s1 = timers s @ [(clock s, d, task_lock t)]
              \<and> holding (task_phase t) \<and> \<not> holding (task_phase t')
              \<and> locked (lock_store (client s1) (task_lock t))
                  = locked (lock_store (client s) (task_lock t))))"
proof (cases l)
  case AcquireBucket
  then show ?thesis using assms by (auto split: if_splits)
next
  case PassThrottle
  then show ?thesis using assms by (auto split: if_splits)
next
  case (WaitThrottle d)
  then show ?thesis using assms by (auto split: if_splits)
next
  case CooldownPass
  then show ?thesis using assms by (auto split: if_splits phase.splits)
next
  case (CooldownAgain d)
  then show ?thesis using assms by (auto split: if_splits phase.splits)
next
  case (Complete out)
  have ph: "task_phase t = Sending"
    using assms Complete by (simp split: if_splits)
  obtain c' tms ph' where r:
    "(case out of Responded resp \<Rightarrow> on_response (clock s) resp t (client s)
       | Failed e \<Rightarrow> on_failure (clock s) e t (client s)) = (c', tms, ph')"
    by (metis prod_cases3)
  have s1: "s1 = s\<lparr>client := c', timers := timers s @ tms\<rparr>" "t' = t\<lparr>task_phase := ph'\<rparr>"
    using assms Complete ph r by auto
  have fr: "next_addr c' = next_addr (client s) \<and> max_attempts c' = max_attempts (client s)
    \<and> (\<forall>a'. a' \<noteq> task_lock t \<longrightarrow> locked (lock_store c' a') = locked (lock_store (client s) a'))
    \<and> (\<forall>bh a'. ratelimit_locks c' bh = Some a' \<longrightarrow> a' = task_lock t \<or> ratelimit_locks (client s) bh = Some a')
    \<and> (holding ph' \<longrightarrow> locked (lock_store c' (task_lock t)) = locked (lock_store (client s) (task_lock t)))
    \<and> (tms = [] \<or> (\<exists>d. tms = [(clock s, d, task_lock t)] \<and> \<not> holding ph'
          \<and> locked (lock_store c' (task_lock t)) = locked (lock_store (client s) (task_lock t))))"
  proof (cases out)
    case (Responded resp)
    then show ?thesis using r on_response_frame [of "clock s" resp t "client s" c' tms ph'] by simp
  next
    case (Failed e)
    then show ?thesis using r on_failure_frame [of "clock s" e t "client s" c' tms ph'] by simp
  qed
  show ?thesis
    using fr by (auto simp: s1 ph)
next
  case AcquireHard
  then show ?thesis using assms by (auto split: if_splits phase.splits)
next
  case ReleaseHard
  then show ?thesis using assms by (auto simp: aexit_other split: if_splits phase.splits)
next
  case WakeDefer
  obtain e c1 evs where u: "unlock (task_lock t) (client s) = (e, c1, evs)"
    by (metis prod_cases3)
  have c1: "c1 = fst (snd (unlock (task_lock t) (client s)))"
    by (simp add: u)
  have n1: "next_addr c1 = next_addr (client s)" "ratelimit_locks c1 = ratelimit_locks (client s)"
    by (simp_all add: c1)
  have n2: "locked (lock_store c1 a') = locked (lock_store (client s) a')" if "a' \<noteq> task_lock t" for a'
    using that by (simp add: c1)
  obtain t0 d where ph: "task_phase t = DeferSleep t0 d"
    using assms WakeDefer by (auto split: phase.splits)
  have s1: "s1 = s\<lparr>client := fst (aexit (task_lock t) c1)\<rparr>"
    using assms WakeDefer u ph by (cases e) (auto split: if_splits)
  have t': "task_lock t' = task_lock t" "\<not> holding (task_phase t')"
    using assms WakeDefer u ph by (cases e; auto split: if_splits)+
  show ?thesis
    by (simp add: s1 t' ph n1 n2 aexit_other)
next
  case WakeRetry
  then show ?thesis using assms by (auto simp: aexit_other split: if_splits phase.splits)
qed


subsection \<open>The bucket lock is held by one call at a time\<close>

lemma lock_inv_update:
  assumes inv: "lock_inv s" and i: "i < length (tasks s)"
    and fr: "task_lock t' = task_lock (tasks s ! i) \<and> tasks s1 = tasks s
    \<and> next_addr (client s1) = next_addr (client s)
    \<and> (\<forall>a'. a' \<noteq> task_lock (tasks s ! i) \<longrightarrow>
          locked (lock_store (client s1) a') = locked (lock_store (client s) a'))
    \<and> (\<forall>bh a'. ratelimit_locks (client s1) bh = Some a' \<longrightarrow>
          a' = task_lock (tasks s ! i) \<or> ratelimit_locks (client s) bh = Some a')
    \<and> (\<not> holding (task_phase (tasks s ! i)) \<longrightarrow>
          holding (task_phase t') \<and> \<not> locked (lock_store (client s) (task_lock (tasks s ! i)))
          \<and> locked (lock_store (client s1) (task_lock (tasks s ! i))))
    \<and> (holding (task_phase (tasks s ! i)) \<and> holding (task_phase t') \<longrightarrow>
          locked (lock_store (client s1) (task_lock (tasks s ! i)))
            = locked (lock_store (client s) (task_lock (tasks s ! i))))
    \<and> (timers s1 = timers s
        \<or> (\<exists>d. timers s1 = timers s @ [(clock s, d, task_lock (tasks s ! i))]
              \<and> holding (task_phase (tasks s ! i)) \<and> \<not> holding (task_phase t')
              \<and> locked (lock_store (client s1) (task_lock (tasks s ! i)))
                  = locked (lock_store (client s) (task_lock (tasks s ! i)))))"
  shows "lock_inv (s1\<lparr>tasks := (tasks s1)[i := t']\<rparr>)"
proof -
  let ?t = "tasks s ! i"
  let ?a = "task_lock ?t"
  let ?s' = "s1\<lparr>tasks := (tasks s1)[i := t']\<rparr>"
  have A: "addrs_ok s" and T: "timers_ok s" and H: "holders_ok s"
    using inv by (simp_all add: lock_inv_def)
  have f_lock: "task_lock t' = ?a" and f_tasks: "tasks s1 = tasks s"
    and f_next: "next_addr (client s1) = next_addr (client s)"
    using fr by simp_all
  have f_other: "locked (lock_store (client s1) a') = locked (lock_store (client s) a')"
    if "a' \<noteq> ?a" for a'
    using fr that by blast
  have f_reg: "a' = ?a \<or> ratelimit_locks (client s) bh = Some a'"
    if "ratelimit_locks (client s1) bh = Some a'" for bh a'
    using fr that by blast
  have f_enter: "holding (task_phase t') \<and> \<not> locked (lock_store (client s) ?a)
      \<and> locked (lock_store (client s1) ?a)" if "\<not> holding (task_phase ?t)"
    using fr that by blast
  have f_stay: "locked (lock_store (client s1) ?a) = locked (lock_store (client s) ?a)"
    if "holding (task_phase ?t)" "holding (task_phase t')"
    using fr that by blast
  have f_tm: "timers s1 = timers s
        \<or> (\<exists>d. timers s1 = timers s @ [(clock s, d, ?a)]
              \<and> holding (task_phase ?t) \<and> \<not> holding (task_phase t')
              \<and> locked (lock_store (client s1) ?a) = locked (lock_store (client s) ?a))"
    using fr by blast
  have tin: "?t \<in> set (tasks s)" using i by simp
  have a_lt: "?a < next_addr (client s)"
    using A tin by (simp add: addrs_ok_def)
  have held: "locked (lock_store (client s) ?a)" if "holding (task_phase ?t)"
    using H i that by (simp add: holders_ok_def)
  have no_a: "snd (snd tm) \<noteq> ?a" if "tm \<in> set (timers s)" for tm
  proof (cases "holding (task_phase ?t)")
    case True
    then show ?thesis using H i that by (auto simp: holders_ok_def)
  next
    case False
    then have "\<not> locked (lock_store (client s) ?a)" using f_enter by blast
    then show ?thesis using T that by (auto simp: timers_ok_def)
  qed
  have others: "task_lock (tasks s ! k) \<noteq> ?a"
    if "k < length (tasks s)" "k \<noteq> i" "holding (task_phase (tasks s ! k))" for k
  proof (cases "holding (task_phase ?t)")
    case True
    then show ?thesis using H i that by (auto simp: holders_ok_def)
  next
    case False
    then have "\<not> locked (lock_store (client s) ?a)" using f_enter by blast
    moreover have "locked (lock_store (client s) (task_lock (tasks s ! k)))"
      using H that by (simp add: holders_ok_def)
    ultimately show ?thesis by auto
  qed
  have tm': "tm \<in> set (timers s1) \<Longrightarrow> tm \<in> set (timers s) \<or>
      (snd (snd tm) = ?a \<and> holding (task_phase ?t) \<and> \<not> holding (task_phase t')
       \<and> locked (lock_store (client s1) ?a))" for tm
    using f_tm held by auto
  have len: "length (tasks ?s') = length (tasks s)" using f_tasks by simp
  have nth_i: "tasks ?s' ! i = t'" using f_tasks i by simp
  have nth_k: "tasks ?s' ! k = tasks s ! k" if "k \<noteq> i" for k using f_tasks that by simp
  have cl: "client ?s' = client s1" "timers ?s' = timers s1" by simp_all
  have A': "addrs_ok ?s'"
  proof -
    have "task_lock x < next_addr (client s1)" if "x \<in> set ((tasks s)[i := t'])" for x
    proof -
      have "x = t' \<or> x \<in> set (tasks s)"
        using that set_update_subset_insert [of "tasks s" i t'] by auto
      then show ?thesis using f_lock f_next a_lt A by (auto simp: addrs_ok_def)
    qed
    moreover have "snd (snd tm) < next_addr (client s1)" if "tm \<in> set (timers s1)" for tm
      using tm' [OF that] f_next a_lt A by (auto simp: addrs_ok_def)
    moreover have "a' < next_addr (client s1)" if "ratelimit_locks (client s1) bh = Some a'" for bh a'
      using f_reg [OF that] f_next a_lt A by (auto simp: addrs_ok_def)
    ultimately show ?thesis using f_tasks by (auto simp: addrs_ok_def)
  qed
  have T': "timers_ok ?s'"
  proof -
    have 1: "locked (lock_store (client s1) (snd (snd tm)))" if "tm \<in> set (timers s1)" for tm
    proof -
      from tm' [OF that] show ?thesis
      proof
        assume old: "tm \<in> set (timers s)"
        then have "snd (snd tm) \<noteq> ?a" by (rule no_a)
        then show ?thesis using f_other T old by (auto simp: timers_ok_def)
      next
        assume "snd (snd tm) = ?a \<and> holding (task_phase ?t) \<and> \<not> holding (task_phase t')
          \<and> locked (lock_store (client s1) ?a)"
        then show ?thesis by simp
      qed
    qed
    have 2: "distinct (map (\<lambda>tm. snd (snd tm)) (timers s1))"
    proof -
      have d: "distinct (map (\<lambda>tm. snd (snd tm)) (timers s))"
        using T by (simp add: timers_ok_def)
      have "?a \<notin> (\<lambda>tm. snd (snd tm)) ` set (timers s)"
      proof
        assume "?a \<in> (\<lambda>tm. snd (snd tm)) ` set (timers s)"
        then obtain tm where "tm \<in> set (timers s)" "?a = snd (snd tm)"
          by (rule imageE)
        then show False using no_a [of tm] by simp
      qed
      then show ?thesis using f_tm d by auto
    qed
    show ?thesis using 1 2 by (simp add: timers_ok_def)
  qed
  have H': "holders_ok ?s'"
    unfolding holders_ok_def
  proof (intro allI impI)
    fix k
    assume k: "k < length (tasks ?s')" and hk: "holding (task_phase (tasks ?s' ! k))"
    have k': "k < length (tasks s)" using k len by simp
    show "locked (lock_store (client ?s') (task_lock (tasks ?s' ! k)))
        \<and> (\<forall>tm \<in> set (timers ?s'). snd (snd tm) \<noteq> task_lock (tasks ?s' ! k))
        \<and> (\<forall>j < length (tasks ?s').
              holding (task_phase (tasks ?s' ! j))
              \<and> task_lock (tasks ?s' ! j) = task_lock (tasks ?s' ! k) \<longrightarrow> j = k)"
    proof (cases "k = i")
      case True
      have ht': "holding (task_phase t')" using hk True nth_i by simp
      have l: "locked (lock_store (client s1) ?a)"
        using f_enter f_stay ht' held by (cases "holding (task_phase ?t)") auto
      have tms: "timers s1 = timers s" using f_tm ht' by auto
      have u: "j = i" if "j < length (tasks s)" "holding (task_phase (tasks ?s' ! j))"
        "task_lock (tasks ?s' ! j) = ?a" for j
      proof (rule ccontr)
        assume "j \<noteq> i"
        then show False using others [of j] that nth_k [of j] by simp
      qed
      show ?thesis
        using True nth_i f_lock l tms no_a u len by auto
    next
      case False
      have tk: "tasks ?s' ! k = tasks s ! k" using False by (rule nth_k)
      have hk0: "holding (task_phase (tasks s ! k))" using hk tk by simp
      have ne: "task_lock (tasks s ! k) \<noteq> ?a" using others [OF k' False hk0] .
      have l: "locked (lock_store (client s1) (task_lock (tasks s ! k)))"
        using f_other [OF ne] H k' hk0 by (auto simp: holders_ok_def)
      have t0: "\<forall>tm \<in> set (timers s1). snd (snd tm) \<noteq> task_lock (tasks s ! k)"
      proof
        fix tm assume "tm \<in> set (timers s1)"
        from tm' [OF this] show "snd (snd tm) \<noteq> task_lock (tasks s ! k)"
          using H k' hk0 ne by (auto simp: holders_ok_def)
      qed
      have u: "j = k" if "j < length (tasks s)" "holding (task_phase (tasks ?s' ! j))"
        "task_lock (tasks ?s' ! j) = task_lock (tasks s ! k)" for j
      proof (cases "j = i")
        case True
        then show ?thesis using that nth_i f_lock ne by simp
      next
        case False
        then show ?thesis using that nth_k [of j] H k' hk0 by (auto simp: holders_ok_def)
      qed
      show ?thesis using tk l t0 u len by auto
    qed
  qed
  show ?thesis using A' T' H' by (simp add: lock_inv_def)
qed

lemma lock_inv_initial: "lock_inv (initial ua)"
  by (simp add: lock_inv_def addrs_ok_def timers_ok_def holders_ok_def initial_def new_http_client_def)

lemma start_task_frame [simp]:
  "task_lock (start_task r a c) = a"
  "\<not> holding (task_phase (start_task r a c))"
  "\<not> global_holding (task_phase (start_task r a c))"
  "task_phase (start_task r a c) \<noteq> Sending"
  by (simp_all add: start_task_def)

lemma get_ratelimit_cases:
  assumes "get_ratelimit r c = (a, c')"
  shows "(c' = c \<and> (\<exists>h. ratelimit_locks c h = Some a))
    \<or> (a = next_addr c \<and> next_addr c' = Suc (next_addr c)
        \<and> ratelimit_locks c' = ratelimit_locks c
        \<and> (\<forall>a'. a' \<noteq> a \<longrightarrow> lock_store c' a' = lock_store c a'))"
  using assms
  by (auto simp: get_ratelimit_def alloc_bucket_lock_def split: option.splits if_splits)

lemma lock_inv_start:
  assumes inv: "lock_inv s" and g: "get_ratelimit r (client s) = (a, c')"
  shows "lock_inv (s\<lparr>client := c', tasks := tasks s @ [start_task r a c']\<rparr>)"
proof -
  let ?s' = "s\<lparr>client := c', tasks := tasks s @ [start_task r a c']\<rparr>"
  have A: "addrs_ok s" and T: "timers_ok s" and H: "holders_ok s"
    using inv by (simp_all add: lock_inv_def)
  have nx: "next_addr (client s) \<le> next_addr c'" and a_lt: "a < next_addr c'"
    and reg: "ratelimit_locks c' = ratelimit_locks (client s)"
    and keep: "\<And>a'. a' < next_addr (client s) \<Longrightarrow> lock_store c' a' = lock_store (client s) a'"
    using get_ratelimit_cases [OF g] A by (auto simp: addrs_ok_def)
  have A': "addrs_ok ?s'"
    using A nx a_lt reg by (fastforce simp: addrs_ok_def)
  have T': "timers_ok ?s'"
    using T A keep by (simp add: timers_ok_def addrs_ok_def)
  have H': "holders_ok ?s'"
    unfolding holders_ok_def
  proof (intro allI impI)
    fix k
    assume k: "k < length (tasks ?s')" and hk: "holding (task_phase (tasks ?s' ! k))"
    have k': "k < length (tasks s)"
    proof (rule ccontr)
      assume "\<not> k < length (tasks s)"
      then have "k = length (tasks s)" using k by simp
      then show False using hk by simp
    qed
    have tk: "tasks ?s' ! k = tasks s ! k" using k' by (simp add: nth_append)
    have hk0: "holding (task_phase (tasks s ! k))" using hk tk by simp
    have lt: "task_lock (tasks s ! k) < next_addr (client s)"
      using A k' by (simp add: addrs_ok_def)
    have u: "j = k" if "j < length (tasks ?s')" "holding (task_phase (tasks ?s' ! j))"
      "task_lock (tasks ?s' ! j) = task_lock (tasks s ! k)" for j
    proof -
      have j': "j < length (tasks s)"
      proof (rule ccontr)
        assume "\<not> j < length (tasks s)"
        then have "j = length (tasks s)" using that(1) by simp
        then show False using that(2) by simp
      qed
      then have "tasks ?s' ! j = tasks s ! j" by (simp add: nth_append)
      then show ?thesis using H k' hk0 j' that by (auto simp: holders_ok_def)
    qed
    show "locked (lock_store (client ?s') (task_lock (tasks ?s' ! k)))
        \<and> (\<forall>tm \<in> set (timers ?s'). snd (snd tm) \<noteq> task_lock (tasks ?s' ! k))
        \<and> (\<forall>j < length (tasks ?s').
              holding (task_phase (tasks ?s' ! j))
              \<and> task_lock (tasks ?s' ! j) = task_lock (tasks ?s' ! k) \<longrightarrow> j = k)"
    proof -
      have h1: "locked (lock_store (client s) (task_lock (tasks s ! k)))"
        and h2: "\<forall>tm \<in> set (timers s). snd (snd tm) \<noteq> task_lock (tasks s ! k)"
        using H k' hk0 unfolding holders_ok_def by blast+
      have tk': "(tasks s @ [start_task r a c']) ! k = tasks s ! k"
        using k' by (simp add: nth_append)
      show ?thesis using h1 h2 keep [OF lt] u by (simp add: tk')
    qed
  qed
  show ?thesis using A' T' H' by (simp add: lock_inv_def)
qed

lemma lock_inv_fire:
  assumes inv: "lock_inv s" and k: "k < length (timers s)" and tk: "timers s ! k = (t0, d, a)"
  shows "lock_inv (s\<lparr>client := fst (snd (unlock a (client s))),
                    timers := take k (timers s) @ drop (Suc k) (timers s)\<rparr>)"
proof -
  let ?T' = "take k (timers s) @ drop (Suc k) (timers s)"
  let ?s' = "s\<lparr>client := fst (snd (unlock a (client s))), timers := ?T'\<rparr>"
  have A: "addrs_ok s" and T: "timers_ok s" and H: "holders_ok s"
    using inv by (simp_all add: lock_inv_def)
  have split: "timers s = take k (timers s) @ (t0, d, a) # drop (Suc k) (timers s)"
    using k tk by (metis id_take_nth_drop)
  have sub: "set ?T' \<subseteq> set (timers s)"
    by (metis (no_types) set_append set_drop_subset set_take_subset sup.mono le_sup_iff subset_trans Un_upper1 Un_upper2)
  have mem: "(t0, d, a) \<in> set (timers s)" using k tk by (metis nth_mem)
  have dist: "distinct (map (\<lambda>tm. snd (snd tm)) (timers s))"
    using T by (simp add: timers_ok_def)
  have dist': "distinct (map (\<lambda>tm. snd (snd tm)) ?T') \<and> a \<notin> (\<lambda>tm. snd (snd tm)) ` set ?T'"
  proof -
    have "distinct (map (\<lambda>tm. snd (snd tm)) (take k (timers s)) @ a # map (\<lambda>tm. snd (snd tm)) (drop (Suc k) (timers s)))"
      using dist split by (metis (no_types, lifting) list.simps(9) map_append snd_conv)
    then show ?thesis by auto
  qed
  have A': "addrs_ok ?s'" using A sub by (auto simp: addrs_ok_def)
  have T': "timers_ok ?s'"
    using T sub dist' by (auto simp: timers_ok_def)
  have H': "holders_ok ?s'"
    unfolding holders_ok_def
  proof (intro allI impI)
    fix i
    assume i: "i < length (tasks ?s')" and hi: "holding (task_phase (tasks ?s' ! i))"
    have ne: "task_lock (tasks s ! i) \<noteq> a"
      using H i hi mem by (fastforce simp: holders_ok_def)
    show "locked (lock_store (client ?s') (task_lock (tasks ?s' ! i)))
        \<and> (\<forall>tm \<in> set (timers ?s'). snd (snd tm) \<noteq> task_lock (tasks ?s' ! i))
        \<and> (\<forall>j < length (tasks ?s').
              holding (task_phase (tasks ?s' ! j))
              \<and> task_lock (tasks ?s' ! j) = task_lock (tasks ?s' ! i) \<longrightarrow> j = i)"
    proof -
      have i': "i < length (tasks s)" and hi': "holding (task_phase (tasks s ! i))"
        using i hi by simp_all
      have h1: "locked (lock_store (client s) (task_lock (tasks s ! i)))"
        and h2: "\<forall>tm \<in> set (timers s). snd (snd tm) \<noteq> task_lock (tasks s ! i)"
        and h3: "\<forall>j < length (tasks s). holding (task_phase (tasks s ! j))
              \<and> task_lock (tasks s ! j) = task_lock (tasks s ! i) \<longrightarrow> j = i"
        using H i' hi' unfolding holders_ok_def by blast+
      have h2': "\<forall>tm \<in> set ?T'. snd (snd tm) \<noteq> task_lock (tasks s ! i)"
        using h2 sub by blast
      show ?thesis using h1 h2' h3 ne by simp
    qed
  qed
  show ?thesis using A' T' H' by (simp add: lock_inv_def)
qed

lemma lock_inv_exec:
  assumes "lock_inv s" "exec l s = Some s'"
  shows "lock_inv s'"
proof (cases l)
  case (Start r)
  obtain a c' where g: "get_ratelimit r (client s) = (a, c')" by (metis prod.collapse)
  then have "s' = s\<lparr>client := c', tasks := tasks s @ [start_task r a c']\<rparr>"
    using assms(2) Start by simp
  then show ?thesis using lock_inv_start [OF assms(1) g] by simp
next
  case (Act i tl)
  then have i: "i < length (tasks s)" using assms(2) by (simp split: if_splits)
  obtain s1 t' where ts: "task_step tl s (tasks s ! i) = Some (s1, t')"
    using assms(2) Act i by (auto split: option.splits)
  have s': "s' = s1\<lparr>tasks := (tasks s1)[i := t']\<rparr>"
    using assms(2) Act i ts by simp
  show ?thesis
    unfolding s' by (rule lock_inv_update [OF assms(1) i task_step_frame [OF ts]])
next
  case (FireTimer k)
  then have k: "k < length (timers s)" using assms(2) by (simp split: if_splits)
  obtain t0 d a where tk: "timers s ! k = (t0, d, a)" by (metis prod_cases3)
  have "s' = s\<lparr>client := fst (snd (unlock a (client s))),
                timers := take k (timers s) @ drop (Suc k) (timers s)\<rparr>"
    using assms(2) FireTimer k tk by (simp split: if_splits)
  then show ?thesis using lock_inv_fire [OF assms(1) k tk] by simp
next
  case (Collect h)
  then obtain a where "s' = s\<lparr>client := (client s)\<lparr>ratelimit_locks := (ratelimit_locks (client s))(h := None)\<rparr>\<rparr>"
    using assms(2) by (auto split: option.splits if_splits)
  then show ?thesis
    using assms(1) by (auto simp: lock_inv_def addrs_ok_def timers_ok_def holders_ok_def)
next
  case (Tick q)
  then have "s' = s\<lparr>clock := clock s + q\<rparr>" using assms(2) by (simp split: if_splits)
  then show ?thesis
    using assms(1) by (simp add: lock_inv_def addrs_ok_def timers_ok_def holders_ok_def)
qed

lemma lock_inv_run: "lock_inv s \<Longrightarrow> run ls s = Some s' \<Longrightarrow> lock_inv s'"
proof (induction ls arbitrary: s)
  case Nil
  then show ?case by simp
next
  case (Cons l ls)
  then obtain s1 where e: "exec l s = Some s1" and r: "run ls s1 = Some s'"
    by (auto split: option.splits)
  show ?case using Cons.IH [OF lock_inv_exec [OF Cons.prems(1) e] r] .
qed

text \<open>
  C1, as claimed, fails. A first call on a route learns the bucket hash and ends;
  its lock, referenced by nothing any more, leaves the weak dictionary. Two further
  calls on the same route then each get a new lock from \<open>get_ratelimit\<close>, although
  the route resolves to the known bucket hash, and both are in their transfer at
  the same time.
\<close>

theorem fresh_locks_send_together:
  "(case run [Start example_route, Act 0 AcquireBucket, Act 0 PassThrottle,
              Act 0 (Complete (Responded ok_with_bucket)), Collect ''abcd1234'',
              Start example_route, Start example_route,
              Act 1 AcquireBucket, Act 2 AcquireBucket, Act 1 PassThrottle, Act 2 PassThrottle]
             (initial ''DiscordBot'') of
      None \<Rightarrow> False
    | Some s \<Rightarrow>
        map task_phase (tasks s) = [Finished (Inr (JObj [(''id'', JStr ''42'')])), Sending, Sending]
        \<and> map task_route (tasks s) = [example_route, example_route, example_route]
        \<and> map task_lock (tasks s) = [0, 1, 2]
        \<and> endpoints (client s) (rl_bucket example_route) = Some ''abcd1234'')"
  by code_simp

text \<open>
  C1, amended. In every state the system can reach, two different calls that got
  the same lock from \<open>get_ratelimit\<close> are never both in their transfer; while a call
  is in its transfer, its bucket lock is locked.
\<close>

theorem same_lock_sends_exclusive:
  assumes "run ls (initial ua) = Some s"
    "i < length (tasks s)" "j < length (tasks s)" "i \<noteq> j"
    "task_lock (tasks s ! i) = task_lock (tasks s ! j)"
    "task_phase (tasks s ! i) = Sending"
  shows "task_phase (tasks s ! j) \<noteq> Sending
     \<and> locked (lock_store (client s) (task_lock (tasks s ! i)))"
proof -
  have inv: "lock_inv s"
    using lock_inv_run [OF lock_inv_initial assms(1)] .
  then have H: "holders_ok s" by (simp add: lock_inv_def)
  have hi: "holding (task_phase (tasks s ! i))" using assms(6) by simp
  have l: "locked (lock_store (client s) (task_lock (tasks s ! i)))"
    and u: "\<forall>k < length (tasks s). holding (task_phase (tasks s ! k))
              \<and> task_lock (tasks s ! k) = task_lock (tasks s ! i) \<longrightarrow> k = i"
    using H assms(2) hi unfolding holders_ok_def by blast+
  have "\<not> holding (task_phase (tasks s ! j))"
    using u assms(3,4,5) by auto
  then show ?thesis using l by auto
qed

theorem same_lock_sends_exclusive_witness:
  "(case run [Start example_route, Act 0 AcquireBucket, Act 0 PassThrottle,
              Act 0 (Complete (Responded server_error_with_bucket)), Start example_route,
              Tick 1, Act 0 WakeRetry, Act 0 AcquireBucket, Act 0 PassThrottle]
             (initial ''DiscordBot'') of
      None \<Rightarrow> False
    | Some s \<Rightarrow>
        map task_lock (tasks s) = [0, 0] \<and> map task_phase (tasks s) = [Sending, AwaitBucket]
        \<and> locked (lock_store (client s) 0) \<and> exec (Act 1 AcquireBucket) s = None)"
proof -
  let ?ls = "[Start example_route, Act 0 AcquireBucket, Act 0 PassThrottle,
              Act 0 (Complete (Responded server_error_with_bucket)), Start example_route,
              Tick 1, Act 0 WakeRetry, Act 0 AcquireBucket, Act 0 PassThrottle]"
  obtain s where r: "run ?ls (initial ''DiscordBot'') = Some s"
    and t: "map task_lock (tasks s) = [0, 0]" "map task_phase (tasks s) = [Sending, AwaitBucket]"
  proof -
    have "case run ?ls (initial ''DiscordBot'') of None \<Rightarrow> False
      | Some s \<Rightarrow> map task_lock (tasks s) = [0, 0] \<and> map task_phase (tasks s) = [Sending, AwaitBucket]"
      by code_simp
    then show ?thesis using that by (auto split: option.splits)
  qed
  have len: "length (tasks s) = 2" using t(1) by (metis length_map length_Cons list.size(3) numeral_2_eq_2)
  have n0: "task_lock (tasks s ! 0) = 0" "task_phase (tasks s ! 0) = Sending"
    "task_lock (tasks s ! 1) = 0" "task_phase (tasks s ! 1) = AwaitBucket"
    using t len by (metis nth_map nth_Cons_0 nth_Cons_Suc One_nat_def zero_less_numeral one_less_numeral_iff semiring_norm(76))+
  have i: "0 < length (tasks s)" and j: "1 < length (tasks s)" using len by simp_all
  have "task_phase (tasks s ! 1) \<noteq> Sending \<and> locked (lock_store (client s) (task_lock (tasks s ! 0)))"
    using same_lock_sends_exclusive [OF r i j] n0 by simp
  then have l: "locked (lock_store (client s) 0)" using n0 by simp
  have "exec (Act 1 AcquireBucket) s = None"
    using j n0 l by simp
  then show ?thesis using r t l by simp
qed

subsection \<open>The global lock\<close>









lemma global_429_awaits_hard_lock:
  assumes "task_phase t = Sending" "status resp = 429" "result resp = JObj kvs"
    "truthy (case dict_get kvs ''global'' of None \<Rightarrow> JBool False | Some v \<Rightarrow> v)"
    "retry_after kvs = Inr R" "numeric_headers (headers resp)"
  shows "\<exists>s1. task_step (Complete (Responded resp)) s t = Some (s1, t\<lparr>task_phase := AwaitHard R\<rparr>)"
proof -
  obtain e c1 where i: "ingest_ratelimit (task_route t) (headers resp) (task_lock t) (client s) = (e, c1)"
    by (cases "ingest_ratelimit (task_route t) (headers resp) (task_lock t) (client s)")
  have "fst (ingest_ratelimit (task_route t) (headers resp) (task_lock t) (client s)) = None"
    using assms(6) by (simp add: ingest_ratelimit_fst ingest_header_ok_iff)
  then have e: "e = None" using i by simp
  have br: "choose_branch resp (lock_store c1 (task_lock t)) = GlobalRetry R"
    using assms(2-5) by (simp add: choose_branch_def)
  show ?thesis
    using assms(1) by (simp add: on_response_def i e br)
qed

lemma acquire_hard_starts_sleep:
  assumes "task_phase t = AwaitHard R" "\<not> global_locked s"
  shows "task_step AcquireHard s t
     = Some (s\<lparr>global_locked := True\<rparr>, t\<lparr>task_phase := HardSleep (clock s) R\<rparr>)"
  using assms by simp



end
